theory Spec2Isabelle
  imports Main "HOL-Library.AList"
begin

section \<open>JavaScript strings\<close>

text \<open>
  The console's utilities are JavaScript. A JavaScript string is a sequence of UTF-16
  code units, and \<open>length\<close>, \<open>lastIndexOf\<close> and \<open>substring\<close> count code units: a string is
  the list of its code units, and \<open>js\<close> writes out a literal of the source. Request ids,
  task ids and the like, which the code only compares, stay HOL strings. A thrown
  exception is a value of \<open>js_error\<close> on the left of a sum.
\<close>

datatype js_error = TypeError

type_synonym jstring = "nat list"

definition js :: "string \<Rightarrow> jstring" where
  "js s = map of_char s"

text \<open>
  \<open>toLowerCase\<close> maps code unit by code unit, and one unit has a lower case of two units:
  U+0130, the capital I with a dot above, becomes \<open>i\<close> followed by U+0307. The ASCII capitals
  become the ASCII small letters and the Kelvin sign U+212A becomes \<open>k\<close>. Every other code
  unit is left as it is here: where it has a lower case, that is again one code unit
  outside ASCII, so it compares the same with the ASCII extensions below.
\<close>

definition toLowerCase_unit :: "nat \<Rightarrow> jstring" where
  "toLowerCase_unit c =
     (if 65 \<le> c \<and> c \<le> 90 then [c + 32]
      else if c = 304 then [105, 775]
      else if c = 8490 then [107]
      else [c])"

definition toLowerCase :: "jstring \<Rightarrow> jstring" where
  "toLowerCase s = concat (map toLowerCase_unit s)"

text \<open>\<open>s.lastIndexOf(c)\<close> for a search string of one code unit: the greatest index holding
  \<open>c\<close>, or \<open>-1\<close>. The code unit of the dot is 46.\<close>

fun lastIndexOf :: "jstring \<Rightarrow> nat \<Rightarrow> int" where
  "lastIndexOf [] c = - 1"
| "lastIndexOf (x # xs) c =
     (let r = lastIndexOf xs c in
      if 0 \<le> r then r + 1 else if x = c then 0 else - 1)"

definition dot :: nat where
  "dot = 46"

text \<open>\<open>s.substring(start)\<close>: a negative start counts as 0, one past the end as the length.\<close>

definition substring :: "jstring \<Rightarrow> int \<Rightarrow> jstring" where
  "substring s start = drop (nat (max 0 start)) s"

definition includes_js :: "jstring list \<Rightarrow> jstring \<Rightarrow> bool" where
  "includes_js xs x = (x \<in> set xs)"

fun join :: "jstring \<Rightarrow> jstring list \<Rightarrow> jstring" where
  "join sep [] = []"
| "join sep [x] = x"
| "join sep (x # y # ys) = x @ sep @ join sep (y # ys)"

definition endsWith :: "jstring \<Rightarrow> jstring \<Rightarrow> bool" where
  "endsWith s t = (length t \<le> length s \<and> drop (length s - length t) s = t)"

text \<open>The decimal digits of a natural number, as code units (\<open>0\<close> is 48).\<close>

fun string_of_nat :: "nat \<Rightarrow> jstring" where
  "string_of_nat n =
     (if n < 10 then [48 + n] else string_of_nat (n div 10) @ [48 + n mod 10])"

declare string_of_nat.simps [simp del]

text \<open>\<open>(x / d).toFixed(1)\<close> for a divisor \<open>d\<close> that is a power of two (the quotient is then
  exact in double precision): the nearest multiple of one tenth, the larger one at a tie.\<close>

definition toFixed1 :: "nat \<Rightarrow> nat \<Rightarrow> jstring" where
  "toFixed1 x d =
     (let n = (20 * x + d) div (2 * d) in
      string_of_nat (n div 10) @ js ''.'' @ string_of_nat (n mod 10))"

section \<open>File validation utility\<close>

text \<open>A browser \<open>File\<close>: its name (\<open>None\<close> when the property is undefined) and its size in
  bytes. A file argument that is \<open>null\<close> or \<open>undefined\<close> is \<open>None\<close>.\<close>

record upload_file =
  file_name :: "jstring option"
  file_size :: nat

text \<open>The validation result objects: \<open>isValid\<close> and the properties a result may carry.\<close>

record validation =
  isValid :: bool
  error :: "jstring option"
  fileExtension :: "jstring option"
  fileType :: "jstring option"
  fileSize :: "nat option"

definition invalid :: "jstring \<Rightarrow> validation" where
  "invalid msg =
     \<lparr>isValid = False, error = Some msg, fileExtension = None, fileType = None,
      fileSize = None\<rparr>"

definition FILE_TYPES_SESSION :: jstring where "FILE_TYPES_SESSION = js ''.session''"
definition FILE_TYPES_ZIP :: jstring where "FILE_TYPES_ZIP = js ''.zip''"
definition FILE_TYPES_ALL_IMAGES :: "jstring list" where
  "FILE_TYPES_ALL_IMAGES =
     [js ''.jpg'', js ''.jpeg'', js ''.png'', js ''.gif'', js ''.bmp'', js ''.webp'']"
definition FILE_TYPES_ALL_SESSION_FILES :: "jstring list" where
  "FILE_TYPES_ALL_SESSION_FILES = [js ''.session'', js ''.zip'']"

definition MAX_SESSION_FILE :: nat where "MAX_SESSION_FILE = 5 * 1024 * 1024"
definition MAX_IMAGE_FILE :: nat where "MAX_IMAGE_FILE = 10 * 1024 * 1024"
definition MAX_ZIP_FILE :: nat where "MAX_ZIP_FILE = 50 * 1024 * 1024"
definition MIN_IMAGE_FILE :: nat where "MIN_IMAGE_FILE = 1024"

definition validateFileType :: "upload_file option \<Rightarrow> jstring list \<Rightarrow> validation" where
  "validateFileType fl allowedTypes =
     (case fl of
        None \<Rightarrow> invalid (js ''Invalid file object'')
      | Some f \<Rightarrow>
          (case file_name f of
             None \<Rightarrow> invalid (js ''Invalid file object'')
           | Some n \<Rightarrow>
               if n = [] then invalid (js ''Invalid file object'')
               else
                 (let ext = substring (toLowerCase n) (lastIndexOf n dot) in
                  if \<not> includes_js allowedTypes ext
                  then invalid (js ''File type not allowed. Allowed types: ''
                                @ join (js '', '') allowedTypes)
                  else \<lparr>isValid = True, error = None, fileExtension = Some ext,
                        fileType = None, fileSize = None\<rparr>)))"

definition validateFileSize :: "upload_file option \<Rightarrow> nat \<Rightarrow> nat \<Rightarrow> validation" where
  "validateFileSize fl maxSize minSize =
     (case fl of
        None \<Rightarrow> invalid (js ''Invalid file object'')
      | Some f \<Rightarrow>
          if file_size f > maxSize
          then invalid (js ''File too large. Maximum size: ''
                        @ toFixed1 maxSize (1024 * 1024) @ js ''MB'')
          else if minSize > 0 \<and> file_size f < minSize
          then invalid (js ''File too small. Minimum size: ''
                        @ toFixed1 minSize 1024 @ js ''KB'')
          else \<lparr>isValid = True, error = None, fileExtension = None, fileType = None,
                fileSize = Some (file_size f)\<rparr>)"

definition validateSessionFile :: "upload_file option \<Rightarrow> validation" where
  "validateSessionFile fl =
     (let typeValidation = validateFileType fl FILE_TYPES_ALL_SESSION_FILES in
      if \<not> isValid typeValidation then typeValidation
      else
        (let sizeValidation = validateFileSize fl MAX_SESSION_FILE 0 in
         if \<not> isValid sizeValidation then sizeValidation
         else \<lparr>isValid = True, error = None, fileExtension = None,
               fileType = fileExtension typeValidation,
               fileSize = fileSize sizeValidation\<rparr>))"

definition validateImageFile :: "upload_file option \<Rightarrow> validation" where
  "validateImageFile fl =
     (let typeValidation = validateFileType fl FILE_TYPES_ALL_IMAGES in
      if \<not> isValid typeValidation then typeValidation
      else
        (let sizeValidation = validateFileSize fl MAX_IMAGE_FILE MIN_IMAGE_FILE in
         if \<not> isValid sizeValidation then sizeValidation
         else \<lparr>isValid = True, error = None, fileExtension = None,
               fileType = fileExtension typeValidation,
               fileSize = fileSize sizeValidation\<rparr>))"

text \<open>
  \<open>validateMultipleFiles(files, validator)\<close> takes any function as its validator, so what
  the validator returns is any JavaScript value: a primitive, a \<open>File\<close>, or an object,
  given by its own properties in the order of their creation. The values of this module's
  validators are the objects of \<open>object_of\<close>: a property is there when the record has it.
  An element of the array \<open>files\<close> is a \<open>File\<close> or, as above, \<open>None\<close> for \<open>null\<close> and
  \<open>undefined\<close>; \<open>element\<close> is the element as a value.
\<close>

datatype 'f js_value =
    VUndefined | VNull | VBool bool | VNum int | VStr jstring | VFile 'f
  | VObject "(jstring \<times> 'f js_value) list"

definition object_of :: "validation \<Rightarrow> 'f js_value" where
  "object_of v =
     VObject ((js ''isValid'', VBool (isValid v))
       # (case error v of None \<Rightarrow> [] | Some e \<Rightarrow> [(js ''error'', VStr e)])
       @ (case fileExtension v of None \<Rightarrow> [] | Some e \<Rightarrow> [(js ''fileExtension'', VStr e)])
       @ (case fileType v of None \<Rightarrow> [] | Some e \<Rightarrow> [(js ''fileType'', VStr e)])
       @ (case fileSize v of None \<Rightarrow> [] | Some n \<Rightarrow> [(js ''fileSize'', VNum (int n))]))"

text \<open>
  Reading a property of \<open>null\<close> or \<open>undefined\<close> throws a \<open>TypeError\<close>. Of any other value
  the properties \<open>isValid\<close>, \<open>error\<close>, \<open>file\<close> and \<open>index\<close>, the only ones read here, are own
  properties of an object and \<open>undefined\<close> otherwise (a primitive and a \<open>File\<close> have none of
  them).
\<close>

definition element :: "'f option \<Rightarrow> 'f js_value" where
  "element fl = (case fl of None \<Rightarrow> VNull | Some f \<Rightarrow> VFile f)"

fun nullish :: "'f js_value \<Rightarrow> bool" where
  "nullish VUndefined = True"
| "nullish VNull = True"
| "nullish v = False"

fun own_properties :: "'f js_value \<Rightarrow> (jstring \<times> 'f js_value) list" where
  "own_properties (VObject ps) = ps"
| "own_properties v = []"

definition property_of :: "'f js_value \<Rightarrow> jstring \<Rightarrow> 'f js_value" where
  "property_of v k = (case map_of (own_properties v) k of None \<Rightarrow> VUndefined | Some x \<Rightarrow> x)"

fun truthy_value :: "'f js_value \<Rightarrow> bool" where
  "truthy_value VUndefined = False"
| "truthy_value VNull = False"
| "truthy_value (VBool b) = b"
| "truthy_value (VNum n) = (n \<noteq> 0)"
| "truthy_value (VStr s) = (s \<noteq> [])"
| "truthy_value (VFile f) = True"
| "truthy_value (VObject ps) = True"

text \<open>
  The object literal \<open>{file, index: i, ...validation}\<close> creates \<open>file\<close> and \<open>index\<close> and then
  copies the own properties of \<open>validation\<close> in their order: a property that is there
  already keeps its place and takes the new value, a new one goes to the end. So an own
  \<open>file\<close> or \<open>index\<close> of the validator's result replaces the entry's. The other literal is
  \<open>{file, index: i, error: validation.error}\<close>.
\<close>

definition spread ::
  "(jstring \<times> 'f js_value) list \<Rightarrow> 'f js_value \<Rightarrow> (jstring \<times> 'f js_value) list" where
  "spread target source = fold (\<lambda>(k, v). AList.update k v) (own_properties source) target"

definition valid_entry :: "'f option \<Rightarrow> nat \<Rightarrow> 'f js_value \<Rightarrow> 'f js_value" where
  "valid_entry fl i validation =
     VObject (spread [(js ''file'', element fl), (js ''index'', VNum (int i))] validation)"

definition invalid_entry :: "'f option \<Rightarrow> nat \<Rightarrow> 'f js_value \<Rightarrow> 'f js_value" where
  "invalid_entry fl i validation =
     VObject [(js ''file'', element fl), (js ''index'', VNum (int i)),
              (js ''error'', property_of validation (js ''error''))]"

datatype 'f files_arg = NotArray | Array "'f list"

record 'f summary =
  s_isValid :: bool
  validFiles :: "'f js_value list"
  invalidFiles :: "'f js_value list"
  totalFiles :: nat
  validCount :: nat
  invalidCount :: nat

text \<open>What \<open>validateMultipleFiles\<close> and \<open>validateFileUpload\<close> return: the early
  \<open>{isValid: false, error}\<close>, or the summary of the loop.\<close>

datatype 'f files_result = Failure jstring | Summary "'f summary"

fun result_isValid :: "'f files_result \<Rightarrow> bool" where
  "result_isValid (Failure msg) = False"
| "result_isValid (Summary sm) = s_isValid sm"

text \<open>The \<open>for\<close> loop, from index \<open>i\<close> on, over the files not yet visited. A validator
  returns a value or throws; \<open>validation.isValid\<close> throws when the value is \<open>null\<close> or
  \<open>undefined\<close>.\<close>

fun validate_loop ::
  "('f option \<Rightarrow> js_error + 'f js_value) \<Rightarrow> 'f option list \<Rightarrow> nat \<Rightarrow>
   'f js_value list \<Rightarrow> 'f js_value list \<Rightarrow>
   js_error + ('f js_value list \<times> 'f js_value list)" where
  "validate_loop validator [] i results errors = Inr (results, errors)"
| "validate_loop validator (fl # rest) i results errors =
     (case validator fl of
        Inl e \<Rightarrow> Inl e
      | Inr validation \<Rightarrow>
          if nullish validation then Inl TypeError
          else if truthy_value (property_of validation (js ''isValid''))
          then validate_loop validator rest (i + 1)
                 (results @ [valid_entry fl i validation]) errors
          else validate_loop validator rest (i + 1) results
                 (errors @ [invalid_entry fl i validation]))"

definition validateMultipleFiles ::
  "'f option files_arg \<Rightarrow> ('f option \<Rightarrow> js_error + 'f js_value) \<Rightarrow>
   js_error + 'f files_result" where
  "validateMultipleFiles files validator =
     (case files of
        NotArray \<Rightarrow> Inr (Failure (js ''No files provided''))
      | Array fs \<Rightarrow>
          if length fs = 0 then Inr (Failure (js ''No files provided''))
          else
            (case validate_loop validator fs 0 [] [] of
               Inl e \<Rightarrow> Inl e
             | Inr (results, errors) \<Rightarrow>
                 Inr (Summary
                   \<lparr>s_isValid = (length errors = 0), validFiles = results,
                    invalidFiles = errors, totalFiles = length fs,
                    validCount = length results, invalidCount = length errors\<rparr>)))"

text \<open>\<open>a && b\<close> on two objects: \<open>b\<close> when \<open>a\<close> is truthy, else \<open>a\<close>; and every object is
  truthy, whatever its properties hold.\<close>

definition truthy_object :: "validation \<Rightarrow> bool" where
  "truthy_object v = True"

definition js_and :: "validation \<Rightarrow> validation \<Rightarrow> validation" where
  "js_and a b = (if truthy_object a then b else a)"

definition zip_validator :: "upload_file option \<Rightarrow> js_error + validation" where
  "zip_validator fl =
     Inr (js_and (validateFileType fl [FILE_TYPES_ZIP]) (validateFileSize fl MAX_ZIP_FILE 0))"

text \<open>The \<open>'mixed'\<close> validator reads \<open>file.name.endsWith\<close> first, which throws a
  \<open>TypeError\<close> when the file or its name is undefined.\<close>

definition mixed_validator :: "upload_file option \<Rightarrow> js_error + validation" where
  "mixed_validator fl =
     (case fl of
        None \<Rightarrow> Inl TypeError
      | Some f \<Rightarrow>
          (case file_name f of
             None \<Rightarrow> Inl TypeError
           | Some n \<Rightarrow>
               if endsWith n FILE_TYPES_SESSION then Inr (validateSessionFile fl)
               else if endsWith n FILE_TYPES_ZIP
               then Inr (js_and (validateFileType fl [FILE_TYPES_ZIP])
                                (validateFileSize fl MAX_ZIP_FILE 0))
               else Inr (invalid (js ''Invalid file type''))))"

text \<open>The table \<open>validators\<close> of \<open>validateFileUpload\<close>, by its four own keys (a use case
  that names a property the table inherits, such as \<open>toString\<close>, is not modelled).\<close>

definition validators :: "jstring \<Rightarrow> (upload_file option \<Rightarrow> js_error + validation) option" where
  "validators useCase =
     (if useCase = js ''session'' then Some (\<lambda>fl. Inr (validateSessionFile fl))
      else if useCase = js ''image'' then Some (\<lambda>fl. Inr (validateImageFile fl))
      else if useCase = js ''zip'' then Some zip_validator
      else if useCase = js ''mixed'' then Some mixed_validator
      else None)"

text \<open>\<open>validateMultipleFiles\<close> gets the function of the table; what that function returns
  is the object of the validation record.\<close>

definition returned :: "js_error + validation \<Rightarrow> js_error + 'f js_value" where
  "returned r = (case r of Inl e \<Rightarrow> Inl e | Inr v \<Rightarrow> Inr (object_of v))"

definition validateFileUpload ::
  "upload_file option files_arg \<Rightarrow> jstring \<Rightarrow> js_error + upload_file files_result" where
  "validateFileUpload files useCase =
     (case validators useCase of
        None \<Rightarrow> Inr (Failure (js ''Unknown use case: '' @ useCase))
      | Some validator \<Rightarrow> validateMultipleFiles files (\<lambda>fl. returned (validator fl)))"

text \<open>The extension of a name as a reader understands it: the part from the last dot on,
  and the whole name when it has no dot.\<close>

definition extension_of :: "jstring \<Rightarrow> jstring" where
  "extension_of s =
     (if dot \<in> set s
      then dot # rev (takeWhile (\<lambda>c. c \<noteq> dot) (rev s))
      else s)"

text \<open>
  What it means for a summary to partition the files \<open>fs\<close> under a validator: the counts
  add up to the number of files; every entry has as its \<open>index\<close> an index of the input
  and as its \<open>file\<close> the file of that index, an entry of \<open>validFiles\<close> is built from a
  result of the validator whose \<open>isValid\<close> is truthy and an entry of \<open>invalidFiles\<close> from
  one whose \<open>isValid\<close> is not; and every index of the input occurs exactly once over the
  two lists.
\<close>

definition indices :: "'f js_value list \<Rightarrow> 'f js_value list" where
  "indices entries = map (\<lambda>e. property_of e (js ''index'')) entries"

definition partitions_files ::
  "('f option \<Rightarrow> js_error + 'f js_value) \<Rightarrow> 'f option list \<Rightarrow> 'f summary \<Rightarrow> bool" where
  "partitions_files validator fs sm \<longleftrightarrow>
     validCount sm + invalidCount sm = totalFiles sm
     \<and> totalFiles sm = length fs
     \<and> validCount sm = length (validFiles sm)
     \<and> invalidCount sm = length (invalidFiles sm)
     \<and> (\<forall>e\<in>set (validFiles sm). \<exists>i\<in>{0..<length fs}.
           property_of e (js ''index'') = VNum (int i)
           \<and> property_of e (js ''file'') = element (fs ! i)
           \<and> (case validator (fs ! i) of
                 Inl err \<Rightarrow> False
               | Inr v \<Rightarrow> truthy_value (property_of v (js ''isValid''))
                          \<and> e = valid_entry (fs ! i) i v))
     \<and> (\<forall>e\<in>set (invalidFiles sm). \<exists>i\<in>{0..<length fs}.
           property_of e (js ''index'') = VNum (int i)
           \<and> property_of e (js ''file'') = element (fs ! i)
           \<and> (case validator (fs ! i) of
                 Inl err \<Rightarrow> False
               | Inr v \<Rightarrow> \<not> truthy_value (property_of v (js ''isValid''))
                          \<and> e = invalid_entry (fs ! i) i v))
     \<and> distinct (indices (validFiles sm) @ indices (invalidFiles sm))
     \<and> set (indices (validFiles sm) @ indices (invalidFiles sm))
         = (\<lambda>i. VNum (int i)) ` {0..<length fs}"

section \<open>Request controller\<close>

text \<open>
  \<open>RequestController\<close> keeps three JavaScript \<open>Map\<close>s keyed by request id. A \<open>Map\<close> is an
  association list in insertion order: \<open>get\<close> is \<^const>\<open>map_of\<close>, \<open>set\<close> is
  \<^const>\<open>AList.update\<close> (an existing key keeps its place, a new one goes last) and
  \<open>delete\<close> is \<^const>\<open>AList.delete\<close>.

  Objects and callbacks are known by identity only: an \<open>AbortController\<close> is the address
  of its \<open>signal.aborted\<close> flag in the store \<open>signals\<close>, a timeout is the handle that
  \<open>setTimeout\<close> returned (a positive integer in a browser, so the first handle is 1), a
  callback is a name. The calls the controller makes on the platform and on its callers
  are appended to \<open>calls\<close> in the order they happen. Callbacks return normally and do not
  call back into the controller.

  A method is called on the controller, as in every call inside the class, and then
  \<open>this\<close> is the controller. The module also exports its methods as functions of their
  own, \<open>export const {createCancellableRequest, ...} = requestController\<close>, and the page
  \<open>FolderJoiner.js\<close> imports \<open>createCancellableRequest\<close> that way: called so, a function has
  \<open>this\<close> undefined, and its first \<open>this.\<close> throws a \<open>TypeError\<close>. The two \<open>async\<close>
  entry points take the receiver of their call.
\<close>

datatype receiver = Controller | Undefined

type_synonym request_id = string
type_synonym controller = nat
type_synonym timeout_id = nat
type_synonym callback = nat

record request_info =
  startTime :: nat
  request_type :: "string option"
  timestamp :: "string option"

record timeout_entry =
  delay :: int
  for_request :: request_id
  on_timeout :: "callback option"

datatype rc_call =
    Abort controller
  | SetTimeout timeout_id int
  | ClearTimeout timeout_id
  | OnTimeout callback
  | OnCancel callback
  | ApiCall controller

record rc_state =
  abortControllers :: "(request_id \<times> controller) list"
  activeRequests :: "(request_id \<times> request_info) list"
  requestTimeouts :: "(request_id \<times> timeout_id) list"
  signals :: "controller \<rightharpoonup> bool"
  nextController :: controller
  pendingTimeouts :: "timeout_id \<rightharpoonup> timeout_entry"
  nextTimeout :: timeout_id
  calls :: "rc_call list"

definition RequestController :: rc_state where
  "RequestController =
     \<lparr>abortControllers = [], activeRequests = [], requestTimeouts = [],
      signals = Map.empty, nextController = 0,
      pendingTimeouts = Map.empty, nextTimeout = 1, calls = []\<rparr>"

text \<open>The platform: \<open>controller.abort()\<close>, \<open>clearTimeout(id)\<close> and \<open>setTimeout(f, ms)\<close>.\<close>

definition abort :: "controller \<Rightarrow> rc_state \<Rightarrow> rc_state" where
  "abort c s = s\<lparr>signals := (signals s)(c \<mapsto> True), calls := calls s @ [Abort c]\<rparr>"

definition clearTimeout :: "timeout_id \<Rightarrow> rc_state \<Rightarrow> rc_state" where
  "clearTimeout t s =
     s\<lparr>pendingTimeouts := (pendingTimeouts s)(t := None), calls := calls s @ [ClearTimeout t]\<rparr>"

definition setTimeout :: "timeout_entry \<Rightarrow> rc_state \<Rightarrow> timeout_id \<times> rc_state" where
  "setTimeout e s =
     (let t = nextTimeout s in
      (t, s\<lparr>pendingTimeouts := (pendingTimeouts s)(t \<mapsto> e), nextTimeout := t + 1,
            calls := calls s @ [SetTimeout t (delay e)]\<rparr>))"

text \<open>\<open>if (timeoutId)\<close>: a handle is truthy unless it is 0.\<close>

definition clearRequestTimeout :: "request_id \<Rightarrow> rc_state \<Rightarrow> rc_state" where
  "clearRequestTimeout requestId s =
     (case map_of (requestTimeouts s) requestId of
        None \<Rightarrow> s
      | Some timeoutId \<Rightarrow>
          if timeoutId \<noteq> 0
          then (let s1 = clearTimeout timeoutId s in
                s1\<lparr>requestTimeouts := AList.delete requestId (requestTimeouts s1)\<rparr>)
          else s)"

definition cancelRequest :: "request_id \<Rightarrow> rc_state \<Rightarrow> bool \<times> rc_state" where
  "cancelRequest requestId s =
     (case map_of (abortControllers s) requestId of
        Some c \<Rightarrow>
          (let s1 = abort c s;
               s2 = s1\<lparr>abortControllers := AList.delete requestId (abortControllers s1)\<rparr>;
               s3 = s2\<lparr>activeRequests := AList.delete requestId (activeRequests s2)\<rparr>
           in (True, clearRequestTimeout requestId s3))
      | None \<Rightarrow> (False, s))"

definition createAbortController :: "request_id \<Rightarrow> rc_state \<Rightarrow> controller \<times> rc_state" where
  "createAbortController requestId s =
     (let s1 = snd (cancelRequest requestId s);
          c = nextController s1;
          s2 = s1\<lparr>signals := (signals s1)(c \<mapsto> False), nextController := c + 1\<rparr>
      in (c, s2\<lparr>abortControllers := AList.update requestId c (abortControllers s2)\<rparr>))"

definition getAbortController :: "request_id \<Rightarrow> rc_state \<Rightarrow> controller option" where
  "getAbortController requestId s = map_of (abortControllers s) requestId"

definition clearAllTimeouts :: "rc_state \<Rightarrow> rc_state" where
  "clearAllTimeouts s =
     (let s1 = fold (\<lambda>(requestId, timeoutId). clearTimeout timeoutId) (requestTimeouts s) s
      in s1\<lparr>requestTimeouts := []\<rparr>)"

definition cancelAllRequests :: "rc_state \<Rightarrow> rc_state" where
  "cancelAllRequests s =
     (let s1 = fold (\<lambda>(requestId, c). abort c) (abortControllers s) s;
          s2 = s1\<lparr>abortControllers := []\<rparr>;
          s3 = s2\<lparr>activeRequests := []\<rparr>
      in clearAllTimeouts s3)"

text \<open>The function \<open>setTimeout\<close> is given in \<open>setRequestTimeout\<close>, run when the timeout
  \<open>t\<close> fires: \<open>cancelRequest(requestId)\<close>, then \<open>onTimeout()\<close> when one was given. A
  timeout that is not pending does not fire.\<close>

definition timeoutFires :: "timeout_id \<Rightarrow> rc_state \<Rightarrow> rc_state" where
  "timeoutFires t s =
     (case pendingTimeouts s t of
        None \<Rightarrow> s
      | Some e \<Rightarrow>
          (let s1 = s\<lparr>pendingTimeouts := (pendingTimeouts s)(t := None)\<rparr>;
               s2 = snd (cancelRequest (for_request e) s1)
           in case on_timeout e of
                None \<Rightarrow> s2
              | Some cb \<Rightarrow> s2\<lparr>calls := calls s2 @ [OnTimeout cb]\<rparr>))"

definition setRequestTimeout ::
  "request_id \<Rightarrow> int \<Rightarrow> callback option \<Rightarrow> rc_state \<Rightarrow> rc_state" where
  "setRequestTimeout requestId timeoutMs onTimeout s =
     (let s1 = clearRequestTimeout requestId s;
          (timeoutId, s2) =
             setTimeout \<lparr>delay = timeoutMs, for_request = requestId, on_timeout = onTimeout\<rparr> s1
      in s2\<lparr>requestTimeouts := AList.update requestId timeoutId (requestTimeouts s2)\<rparr>)"

text \<open>\<open>markRequestActive\<close> stores \<open>{startTime: Date.now(), ...requestInfo}\<close>; the clock's
  reading is the argument \<open>now\<close>.\<close>

definition markRequestActive ::
  "request_id \<Rightarrow> string option \<Rightarrow> string option \<Rightarrow> nat \<Rightarrow> rc_state \<Rightarrow> rc_state" where
  "markRequestActive requestId ty ts now s =
     s\<lparr>activeRequests :=
         AList.update requestId \<lparr>startTime = now, request_type = ty, timestamp = ts\<rparr>
           (activeRequests s)\<rparr>"

definition markRequestCompleted :: "request_id \<Rightarrow> rc_state \<Rightarrow> rc_state" where
  "markRequestCompleted requestId s =
     (let s1 = s\<lparr>activeRequests := AList.delete requestId (activeRequests s)\<rparr>;
          s2 = s1\<lparr>abortControllers := AList.delete requestId (abortControllers s1)\<rparr>
      in clearRequestTimeout requestId s2)"

definition getActiveRequestsCount :: "rc_state \<Rightarrow> nat" where
  "getActiveRequestsCount s = length (activeRequests s)"

definition isRequestActive :: "request_id \<Rightarrow> rc_state \<Rightarrow> bool" where
  "isRequestActive requestId s = (map_of (activeRequests s) requestId \<noteq> None)"

text \<open>
  The options of a cancellable request; \<open>None\<close> is a property left undefined, which is
  when a destructuring default applies. An \<open>async\<close> function runs up to its first
  \<open>await\<close> when it is called, and the rest when the awaited promise settles:
  \<open>createCancellableRequest\<close> is the part up to \<open>await apiCall(controller.signal)\<close>, and
  \<open>requestSettles\<close> the part after it, with what the function then returns or throws.
  An exception before the \<open>await\<close> rejects the promise the call returns: the result is
  then the error, and the state is the one before the call.
\<close>

record request_options =
  timeout :: "int option"
  onTimeout :: "callback option"
  onCancel :: "callback option"

datatype settlement = Fulfilled | Rejected string

datatype completion = Returned | Thrown string

definition createCancellableRequest ::
  "receiver \<Rightarrow> request_id \<Rightarrow> request_options \<Rightarrow> nat \<Rightarrow> string \<Rightarrow> rc_state \<Rightarrow>
   js_error + (controller \<times> rc_state)" where
  "createCancellableRequest this requestId options now ts s =
     (let timeoutMs = (case timeout options of None \<Rightarrow> 30000 | Some ms \<Rightarrow> ms) in
      case this of
        Undefined \<Rightarrow> Inl TypeError
      | Controller \<Rightarrow>
          (let (c, s1) = createAbortController requestId s;
               s2 = (if timeoutMs > 0
                     then setRequestTimeout requestId timeoutMs (onTimeout options) s1
                     else s1);
               s3 = markRequestActive requestId (Some ''api_call'') (Some ts) now s2
           in Inr (c, s3\<lparr>calls := calls s3 @ [ApiCall c]\<rparr>)))"

definition requestSettles ::
  "request_id \<Rightarrow> request_options \<Rightarrow> settlement \<Rightarrow> rc_state \<Rightarrow> completion \<times> rc_state" where
  "requestSettles requestId options outcome s =
     (case outcome of
        Fulfilled \<Rightarrow> (Returned, markRequestCompleted requestId s)
      | Rejected name \<Rightarrow>
          if name = ''AbortError''
          then (Thrown ''Request was cancelled'',
                case onCancel options of
                  None \<Rightarrow> s
                | Some cb \<Rightarrow> s\<lparr>calls := calls s @ [OnCancel cb]\<rparr>)
          else (Thrown name, markRequestCompleted requestId s))"

definition createCancellableOperation ::
  "receiver \<Rightarrow> request_id \<Rightarrow> request_options \<Rightarrow> nat \<Rightarrow> string \<Rightarrow> rc_state \<Rightarrow>
   js_error + (controller \<times> rc_state)" where
  "createCancellableOperation this operationId options now ts s =
     (let timeoutMs = (case timeout options of None \<Rightarrow> 300000 | Some ms \<Rightarrow> ms) in
      case this of
        Undefined \<Rightarrow> Inl TypeError
      | Controller \<Rightarrow>
          (let (c, s1) = createAbortController operationId s;
               s2 = (if timeoutMs > 0
                     then setRequestTimeout operationId timeoutMs (onTimeout options) s1
                     else s1);
               s3 = markRequestActive operationId (Some ''long_operation'') (Some ts) now s2
           in Inr (c, s3\<lparr>calls := calls s3 @ [ApiCall c]\<rparr>)))"

definition operationSettles ::
  "request_id \<Rightarrow> request_options \<Rightarrow> settlement \<Rightarrow> rc_state \<Rightarrow> completion \<times> rc_state" where
  "operationSettles operationId options outcome s =
     (case outcome of
        Fulfilled \<Rightarrow> (Returned, markRequestCompleted operationId s)
      | Rejected name \<Rightarrow>
          if name = ''AbortError''
          then (Thrown ''Operation was cancelled'',
                case onCancel options of
                  None \<Rightarrow> s
                | Some cb \<Rightarrow> s\<lparr>calls := calls s @ [OnCancel cb]\<rparr>)
          else (Thrown name, markRequestCompleted operationId s))"

definition cleanup :: "rc_state \<Rightarrow> rc_state" where
  "cleanup s = clearAllTimeouts (cancelAllRequests s)"

text \<open>Every way the state of the controller changes: a call of one of its methods, the
  settling of an awaited call, or a pending timeout firing.\<close>

datatype rc_op =
    CreateAbortController request_id
  | CancelRequest request_id
  | CancelAllRequests
  | SetRequestTimeout request_id int "callback option"
  | ClearRequestTimeout request_id
  | ClearAllTimeouts
  | MarkRequestActive request_id "string option" "string option" nat
  | MarkRequestCompleted request_id
  | CreateCancellableRequest receiver request_id request_options nat string
  | RequestSettles request_id request_options settlement
  | CreateCancellableOperation receiver request_id request_options nat string
  | OperationSettles request_id request_options settlement
  | Cleanup
  | TimeoutFires timeout_id

fun rc_step :: "rc_op \<Rightarrow> rc_state \<Rightarrow> rc_state" where
  "rc_step (CreateAbortController r) s = snd (createAbortController r s)"
| "rc_step (CancelRequest r) s = snd (cancelRequest r s)"
| "rc_step CancelAllRequests s = cancelAllRequests s"
| "rc_step (SetRequestTimeout r ms cb) s = setRequestTimeout r ms cb s"
| "rc_step (ClearRequestTimeout r) s = clearRequestTimeout r s"
| "rc_step ClearAllTimeouts s = clearAllTimeouts s"
| "rc_step (MarkRequestActive r ty ts now) s = markRequestActive r ty ts now s"
| "rc_step (MarkRequestCompleted r) s = markRequestCompleted r s"
| "rc_step (CreateCancellableRequest this r opts now ts) s =
     (case createCancellableRequest this r opts now ts s of
        Inl e \<Rightarrow> s
      | Inr (c, s') \<Rightarrow> s')"
| "rc_step (RequestSettles r opts outcome) s = snd (requestSettles r opts outcome s)"
| "rc_step (CreateCancellableOperation this r opts now ts) s =
     (case createCancellableOperation this r opts now ts s of
        Inl e \<Rightarrow> s
      | Inr (c, s') \<Rightarrow> s')"
| "rc_step (OperationSettles r opts outcome) s = snd (operationSettles r opts outcome s)"
| "rc_step Cleanup s = cleanup s"
| "rc_step (TimeoutFires t) s = timeoutFires t s"

inductive rc_reachable :: "rc_state \<Rightarrow> bool" where
  rc_initial: "rc_reachable RequestController"
| rc_next: "rc_reachable s \<Longrightarrow> rc_reachable (rc_step op s)"

text \<open>What the controller keeps true of its maps: no request id, and no controller, is
  registered twice; a registered controller has been created and is not aborted; a
  registered timeout handle is one that \<open>setTimeout\<close> has returned.\<close>

definition rc_inv :: "rc_state \<Rightarrow> bool" where
  "rc_inv s \<longleftrightarrow>
     distinct (map fst (abortControllers s))
     \<and> distinct (map snd (abortControllers s))
     \<and> distinct (map fst (activeRequests s))
     \<and> distinct (map fst (requestTimeouts s))
     \<and> (\<forall>c\<in>snd ` set (abortControllers s). c < nextController s \<and> signals s c = Some False)
     \<and> (\<forall>t\<in>snd ` set (requestTimeouts s). 0 < t \<and> t < nextTimeout s)
     \<and> 0 < nextTimeout s"

section \<open>WebSocket manager\<close>

text \<open>
  A value that \<open>JSON.parse\<close> returns, or \<open>undefined\<close> for a property that is absent.
  Numbers are integers here. An object is the list of its own properties, each key once.
\<close>

datatype jsval =
    JUndefined
  | JNull
  | JBool bool
  | JNum int
  | JStr string
  | JArr "jsval list"
  | JObj "(string \<times> jsval) list"

fun truthy :: "jsval \<Rightarrow> bool" where
  "truthy JUndefined = False"
| "truthy JNull = False"
| "truthy (JBool b) = b"
| "truthy (JNum n) = (n \<noteq> 0)"
| "truthy (JStr s) = (s \<noteq> [])"
| "truthy (JArr xs) = True"
| "truthy (JObj ps) = True"

text \<open>\<open>v.name\<close>, for the property names the manager reads: none of them is inherited, so
  only an object has them.\<close>

fun get_prop :: "jsval \<Rightarrow> string \<Rightarrow> jsval" where
  "get_prop (JObj ps) name = (case map_of ps name of None \<Rightarrow> JUndefined | Some v \<Rightarrow> v)"
| "get_prop v name = JUndefined"

text \<open>\<open>const {a, b, ...} = v\<close> throws a \<open>TypeError\<close> when \<open>v\<close> is \<open>null\<close> or \<open>undefined\<close>,
  and otherwise reads each name.\<close>

definition destructure :: "jsval \<Rightarrow> string list \<Rightarrow> js_error + (string \<times> jsval) list" where
  "destructure v names =
     (if v = JUndefined \<or> v = JNull then Inl TypeError
      else Inr (map (\<lambda>name. (name, get_prop v name)) names))"

text \<open>
  The manager's fields, and the part of the browser it talks to: the sockets it has
  created with their \<open>readyState\<close>, the delays of the pending reconnection timers, and the
  calls it has made, in order (console output is left out). Sockets, handlers and
  callbacks are known by identity; callbacks return normally and do not call back into
  the manager. Every method is called on the manager, so that \<open>this\<close> is the manager.
\<close>

type_synonym socket = nat
type_synonym handler = nat

datatype ready_state = CONNECTING | OPEN | CLOSING | CLOSED

datatype ws_call =
    NewWebSocket "socket option"
  | StatusChanged callback string
  | WsSend socket jsval
  | WsClose socket nat string
  | SetReconnectTimeout nat
  | HandlerCalled handler jsval
  | EventDispatched string jsval

record ws_manager =
  ws :: "socket option"
  reconnectAttempts :: nat
  maxReconnectAttempts :: nat
  reconnectDelay :: nat
  messageHandlers :: "(jsval \<times> handler) list"
  connectionStatus :: string
  taskId :: "string option"
  onStatusChange :: "callback option"
  sockets :: "socket \<rightharpoonup> ready_state"
  nextSocket :: socket
  timers :: "nat list"
  effects :: "ws_call list"

definition WebSocketManager :: ws_manager where
  "WebSocketManager =
     \<lparr>ws = None, reconnectAttempts = 0, maxReconnectAttempts = 5, reconnectDelay = 1000,
      messageHandlers = [], connectionStatus = ''disconnected'', taskId = None,
      onStatusChange = None, sockets = Map.empty, nextSocket = 0, timers = [],
      effects = []\<rparr>"

definition updateStatus :: "string \<Rightarrow> ws_manager \<Rightarrow> ws_manager" where
  "updateStatus status s =
     (let s1 = s\<lparr>connectionStatus := status\<rparr> in
      case onStatusChange s1 of
        None \<Rightarrow> s1
      | Some cb \<Rightarrow> s1\<lparr>effects := effects s1 @ [StatusChanged cb status]\<rparr>)"

text \<open>\<open>connect\<close>: \<open>new WebSocket(url)\<close> returns a fresh socket in state \<open>CONNECTING\<close>
  (\<open>created\<close>), or throws; \<open>setupEventHandlers\<close> then binds the four handlers below to it.\<close>

definition connect :: "string option \<Rightarrow> callback option \<Rightarrow> bool \<Rightarrow> ws_manager \<Rightarrow> ws_manager" where
  "connect tid cb created s =
     (let s1 = s\<lparr>taskId := tid, onStatusChange := cb\<rparr> in
      if created
      then
        (let k = nextSocket s1;
             s2 = s1\<lparr>ws := Some k, sockets := (sockets s1)(k \<mapsto> CONNECTING),
                     nextSocket := k + 1, effects := effects s1 @ [NewWebSocket (Some k)]\<rparr>
         in updateStatus ''connecting'' s2)
      else updateStatus ''error'' (s1\<lparr>effects := effects s1 @ [NewWebSocket None]\<rparr>))"

definition send :: "jsval \<Rightarrow> ws_manager \<Rightarrow> ws_manager" where
  "send data s =
     (case ws s of
        None \<Rightarrow> s
      | Some k \<Rightarrow>
          if sockets s k = Some OPEN then s\<lparr>effects := effects s @ [WsSend k data]\<rparr> else s)"

definition scheduleReconnect :: "ws_manager \<Rightarrow> ws_manager" where
  "scheduleReconnect s =
     (let s1 = s\<lparr>reconnectAttempts := reconnectAttempts s + 1\<rparr>;
          delay = reconnectDelay s1 * 2 ^ (reconnectAttempts s1 - 1)
      in s1\<lparr>timers := timers s1 @ [delay],
            effects := effects s1 @ [SetReconnectTimeout delay]\<rparr>)"

text \<open>The function given to \<open>setTimeout\<close> in \<open>scheduleReconnect\<close>.\<close>

definition reconnectCallback :: "bool \<Rightarrow> ws_manager \<Rightarrow> ws_manager" where
  "reconnectCallback created s =
     (if connectionStatus s = ''disconnected''
      then connect (taskId s) (onStatusChange s) created s
      else s)"

definition onopen :: "socket \<Rightarrow> ws_manager \<Rightarrow> ws_manager" where
  "onopen k s =
     (let s1 = s\<lparr>sockets := (sockets s)(k \<mapsto> OPEN)\<rparr>;
          s2 = s1\<lparr>reconnectAttempts := 0\<rparr>;
          s3 = updateStatus ''connected'' s2
      in case taskId s3 of
           None \<Rightarrow> s3
         | Some tid \<Rightarrow> if tid \<noteq> [] then send (JObj [(''task_id'', JStr tid)]) s3 else s3)"

definition onclose :: "socket \<Rightarrow> nat \<Rightarrow> ws_manager \<Rightarrow> ws_manager" where
  "onclose k code s =
     (let s1 = s\<lparr>sockets := (sockets s)(k \<mapsto> CLOSED)\<rparr>;
          s2 = updateStatus ''disconnected'' s1
      in if code \<noteq> 1000 \<and> reconnectAttempts s2 < maxReconnectAttempts s2
         then scheduleReconnect s2
         else s2)"

definition onerror :: "socket \<Rightarrow> ws_manager \<Rightarrow> ws_manager" where
  "onerror k s = updateStatus ''error'' s"

text \<open>\<open>Map.has\<close> and \<open>Map.get\<close> compare keys by identity: the type of a parsed message, when
  it is an object or an array, is a new object and equals no key.\<close>

fun is_reference :: "jsval \<Rightarrow> bool" where
  "is_reference (JArr xs) = True"
| "is_reference (JObj ps) = True"
| "is_reference v = False"

definition handler_for :: "(jsval \<times> handler) list \<Rightarrow> jsval \<Rightarrow> handler option" where
  "handler_for hs ty = (if is_reference ty then None else map_of hs ty)"

definition emit :: "string \<Rightarrow> jsval \<Rightarrow> ws_call list" where
  "emit event data = [EventDispatched (''websocket:'' @ event) data]"

definition handleProgressUpdate :: "jsval \<Rightarrow> js_error + ws_call list" where
  "handleProgressUpdate payload =
     (case destructure payload [''current'', ''total'', ''percentage'', ''operation'', ''session''] of
        Inl e \<Rightarrow> Inl e
      | Inr picked \<Rightarrow> Inr (emit ''progress'' (JObj picked)))"

definition handleStatusUpdate :: "jsval \<Rightarrow> js_error + ws_call list" where
  "handleStatusUpdate payload =
     (case destructure payload [''status'', ''message'', ''session'', ''details''] of
        Inl e \<Rightarrow> Inl e
      | Inr picked \<Rightarrow> Inr (emit ''status'' (JObj picked)))"

definition handleResultUpdate :: "jsval \<Rightarrow> js_error + ws_call list" where
  "handleResultUpdate payload =
     (case destructure payload [''session'', ''result'', ''success'', ''message''] of
        Inl e \<Rightarrow> Inl e
      | Inr picked \<Rightarrow> Inr (emit ''result'' (JObj picked)))"

definition handleErrorUpdate :: "jsval \<Rightarrow> js_error + ws_call list" where
  "handleErrorUpdate payload =
     (case destructure payload [''session'', ''error'', ''errorType'', ''details''] of
        Inl e \<Rightarrow> Inl e
      | Inr picked \<Rightarrow> Inr (emit ''error'' (JObj picked)))"

definition handleCompleteUpdate :: "jsval \<Rightarrow> js_error + ws_call list" where
  "handleCompleteUpdate payload =
     (case destructure payload [''summary'', ''totalProcessed'', ''totalSuccess'', ''totalErrors''] of
        Inl e \<Rightarrow> Inl e
      | Inr picked \<Rightarrow> Inr (emit ''complete'' (JObj picked)))"

definition handleDefaultMessage :: "jsval \<Rightarrow> js_error + ws_call list" where
  "handleDefaultMessage data =
     (case destructure data [''type'', ''payload'', ''progress'', ''status'', ''message''] of
        Inl e \<Rightarrow> Inl e
      | Inr picked \<Rightarrow>
          (let ty = get_prop data ''type''; payload = get_prop data ''payload'' in
           if ty = JStr ''progress'' then handleProgressUpdate payload
           else if ty = JStr ''status'' then handleStatusUpdate payload
           else if ty = JStr ''result'' then handleResultUpdate payload
           else if ty = JStr ''error'' then handleErrorUpdate payload
           else if ty = JStr ''complete'' then handleCompleteUpdate payload
           else Inr []))"

definition handleMessage :: "ws_manager \<Rightarrow> jsval \<Rightarrow> js_error + ws_call list" where
  "handleMessage s data =
     (case destructure data
             [''type'', ''task_id'', ''payload'', ''progress'', ''status'', ''message''] of
        Inl e \<Rightarrow> Inl e
      | Inr picked \<Rightarrow>
          (let ty = get_prop data ''type'' in
           if truthy ty \<and> handler_for (messageHandlers s) ty \<noteq> None
           then (case handler_for (messageHandlers s) ty of
                   Some h \<Rightarrow> Inr [HandlerCalled h data]
                 | None \<Rightarrow> Inr [])
           else handleDefaultMessage data))"

text \<open>\<open>onmessage\<close>: the argument is what \<open>JSON.parse(event.data)\<close> returned, or \<open>None\<close> when
  it threw; either exception is caught and logged.\<close>

definition onmessage :: "socket \<Rightarrow> jsval option \<Rightarrow> ws_manager \<Rightarrow> ws_manager" where
  "onmessage k parsed s =
     (case parsed of
        None \<Rightarrow> s
      | Some data \<Rightarrow>
          (case handleMessage s data of
             Inl e \<Rightarrow> s
           | Inr cs \<Rightarrow> s\<lparr>effects := effects s @ cs\<rparr>))"

definition on :: "jsval \<Rightarrow> handler \<Rightarrow> ws_manager \<Rightarrow> ws_manager" where
  "on ty h s = s\<lparr>messageHandlers := AList.update ty h (messageHandlers s)\<rparr>"

definition off :: "jsval \<Rightarrow> ws_manager \<Rightarrow> ws_manager" where
  "off ty s = s\<lparr>messageHandlers := AList.delete ty (messageHandlers s)\<rparr>"

text \<open>\<open>ws.close(1000, 'Manual disconnect')\<close> starts the closing handshake of a socket that
  is not yet closing or closed.\<close>

definition disconnect :: "ws_manager \<Rightarrow> ws_manager" where
  "disconnect s =
     (let s1 =
        (case ws s of
           None \<Rightarrow> s
         | Some k \<Rightarrow>
             s\<lparr>effects := effects s @ [WsClose k 1000 ''Manual disconnect''],
               sockets := (if sockets s k = Some CONNECTING \<or> sockets s k = Some OPEN
                           then (sockets s)(k \<mapsto> CLOSING) else sockets s),
               ws := None\<rparr>);
          s2 = updateStatus ''disconnected'' s1
      in s2\<lparr>messageHandlers := []\<rparr>)"

definition getStatus :: "ws_manager \<Rightarrow> string" where
  "getStatus s = connectionStatus s"

definition isConnected :: "ws_manager \<Rightarrow> bool" where
  "isConnected s = (connectionStatus s = ''connected'')"

text \<open>Every way the state of the manager changes: a call of one of its methods, an event
  of a socket it has set handlers on, or a pending reconnection timer (the \<open>i\<close>-th) firing.\<close>

datatype ws_event =
    Connect "string option" "callback option" bool
  | Disconnect
  | Send jsval
  | On jsval handler
  | Off jsval
  | SocketOpens socket
  | SocketMessage socket "jsval option"
  | SocketCloses socket nat
  | SocketError socket
  | ReconnectTimerFires nat bool

fun ws_step :: "ws_event \<Rightarrow> ws_manager \<Rightarrow> ws_manager" where
  "ws_step (Connect tid cb created) s = connect tid cb created s"
| "ws_step Disconnect s = disconnect s"
| "ws_step (Send data) s = send data s"
| "ws_step (On ty h) s = on ty h s"
| "ws_step (Off ty) s = off ty s"
| "ws_step (SocketOpens k) s = onopen k s"
| "ws_step (SocketMessage k parsed) s = onmessage k parsed s"
| "ws_step (SocketCloses k code) s = onclose k code s"
| "ws_step (SocketError k) s = onerror k s"
| "ws_step (ReconnectTimerFires i created) s =
     (if i < length (timers s)
      then reconnectCallback created (s\<lparr>timers := take i (timers s) @ drop (i + 1) (timers s)\<rparr>)
      else s)"

inductive ws_reachable :: "ws_manager \<Rightarrow> bool" where
  ws_initial: "ws_reachable WebSocketManager"
| ws_next: "ws_reachable s \<Longrightarrow> ws_reachable (ws_step ev s)"

text \<open>Running a list of events, and the number of reconnection timers set so far.\<close>

definition ws_run :: "ws_event list \<Rightarrow> ws_manager \<Rightarrow> ws_manager" where
  "ws_run evs s = fold ws_step evs s"

fun is_reconnect_timeout :: "ws_call \<Rightarrow> bool" where
  "is_reconnect_timeout (SetReconnectTimeout d) = True"
| "is_reconnect_timeout c = False"

definition scheduled :: "ws_manager \<Rightarrow> nat" where
  "scheduled s = length (filter is_reconnect_timeout (effects s))"

fun is_open_event :: "ws_event \<Rightarrow> bool" where
  "is_open_event (SocketOpens k) = True"
| "is_open_event ev = False"

text \<open>The \<open>detail\<close> of an emitted event: an object holding the named properties of the
  payload, \<open>undefined\<close> where the payload has none.\<close>

definition detail_of :: "jsval \<Rightarrow> string list \<Rightarrow> jsval" where
  "detail_of payload names = JObj (map (\<lambda>name. (name, get_prop payload name)) names)"

text \<open>What the manager keeps true of its reconnection counters.\<close>

definition ws_inv :: "ws_manager \<Rightarrow> bool" where
  "ws_inv s \<longleftrightarrow>
     reconnectDelay s = 1000 \<and> maxReconnectAttempts s = 5
     \<and> reconnectAttempts s \<le> maxReconnectAttempts s"

section \<open>Properties of the file validation utility\<close>

lemma lastIndexOf_absent: "c \<notin> set s \<Longrightarrow> lastIndexOf s c = - 1"
  by (induction s) (auto simp: Let_def)

lemma lastIndexOf_present:
  "c \<in> set s \<Longrightarrow>
     0 \<le> lastIndexOf s c \<and>
     drop (nat (lastIndexOf s c)) s = c # rev (takeWhile (\<lambda>x. x \<noteq> c) (rev s))"
proof (induction s)
  case Nil
  then show ?case by simp
next
  case (Cons x xs)
  show ?case
  proof (cases "c \<in> set xs")
    case True
    with Cons.IH have r: "0 \<le> lastIndexOf xs c"
      and d: "drop (nat (lastIndexOf xs c)) xs = c # rev (takeWhile (\<lambda>x. x \<noteq> c) (rev xs))"
      by simp_all
    from True have tw: "takeWhile (\<lambda>x. x \<noteq> c) (rev xs @ [x]) = takeWhile (\<lambda>x. x \<noteq> c) (rev xs)"
      by (intro takeWhile_append1[of c]) auto
    from r have "nat (lastIndexOf xs c + 1) = Suc (nat (lastIndexOf xs c))" by simp
    with r d tw show ?thesis by (simp add: Let_def)
  next
    case False
    with Cons.prems have xc: "x = c" by simp
    from False have r: "lastIndexOf xs c = - 1" by (rule lastIndexOf_absent)
    from False have "takeWhile (\<lambda>x. x \<noteq> c) (rev xs @ [c]) = rev xs"
      by (subst takeWhile_append2) auto
    with xc r show ?thesis by (simp add: Let_def)
  qed
qed

text \<open>A name without U+0130 is lower-cased unit by unit, and then the code reads the
  lower-cased extension.\<close>

lemma toLowerCase_map:
  "304 \<notin> set s \<Longrightarrow> toLowerCase s = map (\<lambda>c. hd (toLowerCase_unit c)) s"
  by (induction s) (auto simp: toLowerCase_def toLowerCase_unit_def)

lemma substring_lastIndexOf:
  assumes "304 \<notin> set n"
  shows "substring (toLowerCase n) (lastIndexOf n dot) = toLowerCase (extension_of n)"
proof (cases "dot \<in> set n")
  case True
  from lastIndexOf_present[OF True]
  have r: "0 \<le> lastIndexOf n dot"
    and d: "drop (nat (lastIndexOf n dot)) n = dot # rev (takeWhile (\<lambda>x. x \<noteq> dot) (rev n))"
    by simp_all
  from True d have e: "extension_of n = drop (nat (lastIndexOf n dot)) n"
    by (simp add: extension_of_def)
  have "set (drop (nat (lastIndexOf n dot)) n) \<subseteq> set n" by (rule set_drop_subset)
  with assms have x: "304 \<notin> set (drop (nat (lastIndexOf n dot)) n)" by auto
  have "substring (toLowerCase n) (lastIndexOf n dot)
        = map (\<lambda>c. hd (toLowerCase_unit c)) (drop (nat (lastIndexOf n dot)) n)"
    using r by (simp add: substring_def toLowerCase_map[OF assms] drop_map max_def)
  also have "\<dots> = toLowerCase (extension_of n)"
    by (simp add: toLowerCase_map[OF x] e)
  finally show ?thesis .
next
  case False
  then show ?thesis
    by (simp add: substring_def extension_of_def lastIndexOf_absent)
qed

lemmas js_eval = toLowerCase_def toLowerCase_unit_def js_def extension_of_def substring_def
  dot_def endsWith_def Let_def

lemma isValid_invalid: "\<not> isValid (invalid m)" "error (invalid m) = Some m"
  by (simp_all add: invalid_def)

lemma js_nonempty: "s \<noteq> [] \<Longrightarrow> js s @ t \<noteq> []" "s \<noteq> [] \<Longrightarrow> js s \<noteq> []"
  by (simp_all add: js_def)

lemma validateFileType_valid_iff:
  "isValid (validateFileType (Some f) tys) \<longleftrightarrow>
     (\<exists>n. file_name f = Some n \<and> n \<noteq> []
          \<and> substring (toLowerCase n) (lastIndexOf n dot) \<in> set tys)"
  by (auto simp: validateFileType_def isValid_invalid includes_js_def Let_def
      split: option.splits)

lemma validateFileType_error:
  "\<not> isValid (validateFileType fl tys) \<Longrightarrow>
     \<exists>e. error (validateFileType fl tys) = Some e \<and> e \<noteq> []"
  by (auto simp: validateFileType_def isValid_invalid js_nonempty Let_def
      split: option.splits if_splits)

lemma validateFileSize_valid_iff:
  "isValid (validateFileSize (Some f) mx mn) \<longleftrightarrow>
     file_size f \<le> mx \<and> \<not> (0 < mn \<and> file_size f < mn)"
  by (auto simp: validateFileSize_def isValid_invalid)

lemma validateFileSize_error:
  "\<not> isValid (validateFileSize fl mx mn) \<Longrightarrow>
     \<exists>e. error (validateFileSize fl mx mn) = Some e \<and> e \<noteq> []"
  by (auto simp: validateFileSize_def isValid_invalid js_nonempty split: option.splits if_splits)

text \<open>The sizes the error messages print.\<close>

lemma toFixed1_limits:
  "toFixed1 MAX_SESSION_FILE (1024 * 1024) = js ''5.0''"
  "toFixed1 MAX_IMAGE_FILE (1024 * 1024) = js ''10.0''"
  "toFixed1 MAX_ZIP_FILE (1024 * 1024) = js ''50.0''"
  "toFixed1 MIN_IMAGE_FILE 1024 = js ''1.0''"
  by (simp_all add: toFixed1_def MAX_SESSION_FILE_def MAX_IMAGE_FILE_def MAX_ZIP_FILE_def
      MIN_IMAGE_FILE_def string_of_nat.simps js_def)

lemma validateSessionFile_isValid:
  "isValid (validateSessionFile (Some f)) \<longleftrightarrow>
     (\<exists>n. file_name f = Some n \<and> n \<noteq> []
          \<and> substring (toLowerCase n) (lastIndexOf n dot) \<in> set FILE_TYPES_ALL_SESSION_FILES)
     \<and> file_size f \<le> MAX_SESSION_FILE"
  by (simp add: validateSessionFile_def Let_def validateFileType_valid_iff
      validateFileSize_valid_iff)

lemma validateSessionFile_error:
  "\<not> isValid (validateSessionFile fl) \<Longrightarrow>
     \<exists>e. error (validateSessionFile fl) = Some e \<and> e \<noteq> []"
  using validateFileType_error[of fl FILE_TYPES_ALL_SESSION_FILES]
    validateFileSize_error[of fl MAX_SESSION_FILE 0]
  by (auto simp: validateSessionFile_def Let_def)

text \<open>For a name without U+0130, \<open>validateSessionFile\<close> does what claim C6 says.\<close>

lemma validateSessionFile_plain_names:
  assumes "file_name f = Some n" and "304 \<notin> set n"
  shows "(isValid (validateSessionFile (Some f)) \<longleftrightarrow>
            (toLowerCase (extension_of n) = js ''.session''
             \<or> toLowerCase (extension_of n) = js ''.zip'')
            \<and> file_size f \<le> 5 * 1024 * 1024)
         \<and> (\<not> isValid (validateSessionFile (Some f)) \<longrightarrow>
            (\<exists>e. error (validateSessionFile (Some f)) = Some e \<and> e \<noteq> []))"
proof -
  have e: "n = [] \<Longrightarrow> toLowerCase (extension_of n) = []"
    by (simp add: extension_of_def toLowerCase_def)
  have z: "js ''.session'' \<noteq> []" "js ''.zip'' \<noteq> []"
    by (simp_all add: js_def)
  have "isValid (validateSessionFile (Some f)) \<longleftrightarrow>
            (toLowerCase (extension_of n) = js ''.session''
             \<or> toLowerCase (extension_of n) = js ''.zip'')
            \<and> file_size f \<le> 5 * 1024 * 1024"
    using assms(1) e z
    by (auto simp: validateSessionFile_isValid substring_lastIndexOf[OF assms(2)]
        FILE_TYPES_ALL_SESSION_FILES_def MAX_SESSION_FILE_def)
  then show ?thesis using validateSessionFile_error[of "Some f"] by blast
qed

text \<open>
  Claim C6 says that for every File with a defined name \<open>validateSessionFile\<close> answers
  \<open>isValid = true\<close> exactly when the lower-cased extension of the name is \<open>.session\<close> or
  \<open>.zip\<close> and the size is at most \<open>5 * 1024 * 1024\<close> bytes. The code takes the index of the
  last dot in the name as given and cuts the lower-cased name there. A capital I with a
  dot above (U+0130) before the last dot makes the lower-cased name one code unit longer:
  the file of 1024 bytes whose name is U+0130 followed by \<open>STANBUL.session\<close> has the
  lower-cased extension \<open>.session\<close>, yet it is rejected as of a type not allowed, because
  the extension the code reads is \<open>l.session\<close>.
\<close>

theorem validateSessionFile_dotted_capital_I:
  "toLowerCase (extension_of (304 # js ''STANBUL.session'')) = js ''.session''
   \<and> (1024::nat) \<le> 5 * 1024 * 1024
   \<and> substring (toLowerCase (304 # js ''STANBUL.session''))
        (lastIndexOf (304 # js ''STANBUL.session'') dot) = js ''l.session''
   \<and> \<not> isValid (validateSessionFile
          (Some \<lparr>file_name = Some (304 # js ''STANBUL.session''), file_size = 1024\<rparr>))
   \<and> error (validateSessionFile
          (Some \<lparr>file_name = Some (304 # js ''STANBUL.session''), file_size = 1024\<rparr>))
       = Some (js ''File type not allowed. Allowed types: .session, .zip'')"
proof -
  define n where "n = 304 # js ''STANBUL.session''"
  have a: "toLowerCase (extension_of n) = js ''.session''"
    unfolding n_def by (simp add: js_eval)
  have b: "substring (toLowerCase n) (lastIndexOf n dot) = js ''l.session''"
    unfolding n_def by (simp add: js_eval)
  have ne: "n \<noteq> []" by (simp add: n_def)
  have c: "js ''l.session'' \<noteq> js ''.session''" "js ''l.session'' \<noteq> js ''.zip''"
    by (simp_all add: js_def)
  have d: "js ''File type not allowed. Allowed types: '' @ js ''.session'' @ js '', '' @ js ''.zip''
        = js ''File type not allowed. Allowed types: .session, .zip''"
    by (simp add: js_def)
  have "validateFileType (Some \<lparr>file_name = Some n, file_size = 1024\<rparr>)
          FILE_TYPES_ALL_SESSION_FILES
        = invalid (js ''File type not allowed. Allowed types: .session, .zip'')"
    by (simp add: validateFileType_def Let_def b c d ne includes_js_def
        FILE_TYPES_ALL_SESSION_FILES_def)
  then have "validateSessionFile (Some \<lparr>file_name = Some n, file_size = 1024\<rparr>)
        = invalid (js ''File type not allowed. Allowed types: .session, .zip'')"
    by (simp add: validateSessionFile_def Let_def isValid_invalid)
  with a b show ?thesis unfolding n_def by (simp add: isValid_invalid)
qed

lemma js_keys:
  "js ''file'' \<noteq> js ''index''" "js ''index'' \<noteq> js ''file''"
  "js ''error'' \<noteq> js ''file''" "js ''error'' \<noteq> js ''index''"
  "js ''isValid'' \<noteq> js ''file''" "js ''isValid'' \<noteq> js ''index''"
  "js ''fileSize'' \<noteq> js ''file''" "js ''fileSize'' \<noteq> js ''index''"
  "js ''fileSize'' \<noteq> js ''isValid''" "js ''isValid'' \<noteq> js ''error''"
  "js ''index'' \<noteq> js ''isValid''" "js ''index'' \<noteq> js ''fileSize''"
  "js ''isValid'' \<noteq> js ''fileSize''" "js ''file'' \<noteq> js ''fileSize''"
  "js ''file'' \<noteq> js ''isValid''"
  by (simp_all add: js_def)

lemma fold_update_other:
  "k \<notin> fst ` set ps \<Longrightarrow>
     map_of (fold (\<lambda>(k, v). AList.update k v) ps target) k = map_of target k"
  by (induction ps arbitrary: target) (auto simp: update_conv')

text \<open>An entry of \<open>validFiles\<close> holds the file and the index of the loop when the
  validator's result has no own \<open>file\<close> and no own \<open>index\<close>.\<close>

lemma valid_entry_properties:
  assumes "js ''file'' \<notin> fst ` set (own_properties v)"
    and "js ''index'' \<notin> fst ` set (own_properties v)"
  shows "property_of (valid_entry fl i v) (js ''file'') = element fl"
    and "property_of (valid_entry fl i v) (js ''index'') = VNum (int i)"
  using assms
  by (simp_all add: property_of_def valid_entry_def spread_def fold_update_other js_keys)

lemma invalid_entry_properties:
  "property_of (invalid_entry fl i v) (js ''file'') = element fl"
  "property_of (invalid_entry fl i v) (js ''index'') = VNum (int i)"
  by (simp_all add: property_of_def invalid_entry_def js_keys)

lemma object_of_keys:
  "js ''file'' \<notin> fst ` set (own_properties (object_of v :: 'f js_value))"
  "js ''index'' \<notin> fst ` set (own_properties (object_of v :: 'f js_value))"
  "\<not> nullish (object_of v :: 'f js_value)"
  "truthy_value (property_of (object_of v :: 'f js_value) (js ''isValid'')) = isValid v"
  by (auto simp: object_of_def property_of_def js_def split: option.splits)

lemma validate_loop_eq:
  "\<forall>f\<in>set fs. \<exists>v. validator f = Inr v \<and> \<not> nullish v \<Longrightarrow>
   validate_loop validator fs i rs es = Inr
     (rs @ map (\<lambda>(k, f). valid_entry f k (projr (validator f)))
            (filter (\<lambda>(k, f). truthy_value (property_of (projr (validator f)) (js ''isValid'')))
               (enumerate i fs)),
      es @ map (\<lambda>(k, f). invalid_entry f k (projr (validator f)))
            (filter (\<lambda>(k, f). \<not> truthy_value (property_of (projr (validator f)) (js ''isValid'')))
               (enumerate i fs)))"
proof (induction fs arbitrary: i rs es)
  case Nil
  then show ?case by simp
next
  case (Cons a fs)
  from Cons.prems obtain v where v: "validator a = Inr v" "\<not> nullish v" by auto
  from Cons.prems have rest: "\<forall>f\<in>set fs. \<exists>v. validator f = Inr v \<and> \<not> nullish v" by simp
  show ?case
    using Cons.IH[OF rest, of "Suc i"] v by simp
qed

lemma enumerate0_set:
  "(k, f) \<in> set (enumerate 0 fs) \<longleftrightarrow> k < length fs \<and> f = fs ! k"
  by (auto simp: in_set_enumerate_eq)

lemma partition_indices:
  "distinct (map fst (filter P zs) @ map fst (filter (\<lambda>x. \<not> P x) zs))
   \<and> set (map fst (filter P zs) @ map fst (filter (\<lambda>x. \<not> P x) zs)) = set (map fst zs)"
  if "distinct (map fst zs)"
  using that
proof (induction zs)
  case Nil
  then show ?case by simp
next
  case (Cons z zs)
  then show ?case by (cases "P z") (auto simp: image_iff)
qed

text \<open>
  Claim C7 says that \<open>validateMultipleFiles\<close> partitions the input for every array of files
  and every per-file validator. The loop calls the validator with nothing to catch what it
  throws and reads \<open>isValid\<close> of what it returns, and it spreads a valid result over the
  entry's \<open>file\<close> and \<open>index\<close>. So the property holds for the validators that, for each
  file of the array, return a value other than \<open>null\<close> and \<open>undefined\<close> which, when its
  \<open>isValid\<close> is truthy, has no own property \<open>file\<close> or \<open>index\<close>: then
  \<open>validCount + invalidCount = totalFiles = files.length\<close>, each input file appears in
  exactly one of \<open>validFiles\<close> and \<open>invalidFiles\<close>, at its original index, and \<open>isValid\<close>
  holds exactly when \<open>invalidCount = 0\<close>; an input that is no array, or an empty one, gives
  \<open>isValid = false\<close> with the error \<open>No files provided\<close>, whatever the validator.
\<close>

theorem validateMultipleFiles_partition:
  assumes ret: "\<forall>f\<in>set fs. \<exists>v. validator f = Inr v \<and> \<not> nullish v
                  \<and> (truthy_value (property_of v (js ''isValid'')) \<longrightarrow>
                       js ''file'' \<notin> fst ` set (own_properties v)
                       \<and> js ''index'' \<notin> fst ` set (own_properties v))"
  shows "validateMultipleFiles NotArray validator = Inr (Failure (js ''No files provided''))
     \<and> validateMultipleFiles (Array []) validator = Inr (Failure (js ''No files provided''))
     \<and> \<not> result_isValid (Failure (js ''No files provided'') :: 'a files_result)
     \<and> (fs \<noteq> [] \<longrightarrow>
         (\<exists>sm. validateMultipleFiles (Array fs) validator = Inr (Summary sm)
            \<and> partitions_files validator fs sm
            \<and> (result_isValid (Summary sm) \<longleftrightarrow> invalidCount sm = 0)))"
proof -
  let ?ok = "\<lambda>f. truthy_value (property_of (projr (validator f)) (js ''isValid''))"
  let ?P = "\<lambda>(k, f). ?ok f"
  let ?zs = "enumerate 0 fs"
  define rs where "rs = map (\<lambda>(k, f). valid_entry f k (projr (validator f))) (filter ?P ?zs)"
  define es where "es = map (\<lambda>(k, f). invalid_entry f k (projr (validator f)))
               (filter (\<lambda>x. \<not> ?P x) ?zs)"
  define sm where "sm = \<lparr>s_isValid = (length es = 0), validFiles = rs, invalidFiles = es,
              totalFiles = length fs, validCount = length rs, invalidCount = length es\<rparr>"
  have np: "(\<lambda>(k, f). \<not> ?ok f) = (\<lambda>x. \<not> ?P x)"
    by auto
  from ret have ret': "\<forall>f\<in>set fs. \<exists>v. validator f = Inr v \<and> \<not> nullish v" by blast
  have loop: "validate_loop validator fs 0 [] [] = Inr (rs, es)"
    using validate_loop_eq[OF ret', of 0 "[]" "[]"] by (simp add: np rs_def es_def)
  have run: "fs \<noteq> [] \<Longrightarrow> validateMultipleFiles (Array fs) validator = Inr (Summary sm)"
    by (simp add: validateMultipleFiles_def loop sm_def)
  have cnt: "length rs + length es = length fs"
    using sum_length_filter_compl[of ?P ?zs] by (simp add: rs_def es_def)
  have at: "k < length fs \<Longrightarrow> \<exists>v. validator (fs ! k) = Inr v \<and> projr (validator (fs ! k)) = v
              \<and> (?ok (fs ! k) \<longrightarrow>
                   js ''file'' \<notin> fst ` set (own_properties v)
                   \<and> js ''index'' \<notin> fst ` set (own_properties v))" for k
  proof -
    assume "k < length fs"
    then have "fs ! k \<in> set fs" by simp
    with ret obtain v where "validator (fs ! k) = Inr v"
      "truthy_value (property_of v (js ''isValid'')) \<longrightarrow>
         js ''file'' \<notin> fst ` set (own_properties v)
         \<and> js ''index'' \<notin> fst ` set (own_properties v)"
      by blast
    then show ?thesis by simp
  qed
  have ok: "\<forall>e\<in>set rs. \<exists>i\<in>{0..<length fs}.
           property_of e (js ''index'') = VNum (int i)
           \<and> property_of e (js ''file'') = element (fs ! i)
           \<and> (case validator (fs ! i) of
                 Inl err \<Rightarrow> False
               | Inr v \<Rightarrow> truthy_value (property_of v (js ''isValid''))
                          \<and> e = valid_entry (fs ! i) i v)"
  proof
    fix e assume "e \<in> set rs"
    then obtain k where k: "k < length fs" "?ok (fs ! k)"
      and e: "e = valid_entry (fs ! k) k (projr (validator (fs ! k)))"
      by (auto simp: rs_def enumerate0_set)
    from at[OF k(1)] k(2) obtain v where v: "validator (fs ! k) = Inr v"
      "projr (validator (fs ! k)) = v"
      "js ''file'' \<notin> fst ` set (own_properties v)"
      "js ''index'' \<notin> fst ` set (own_properties v)"
      by blast
    from k(2) v(2) have t: "truthy_value (property_of v (js ''isValid''))" by simp
    from e v(2) have e': "e = valid_entry (fs ! k) k v" by simp
    have "property_of e (js ''index'') = VNum (int k)
           \<and> property_of e (js ''file'') = element (fs ! k)
           \<and> (case validator (fs ! k) of
                 Inl err \<Rightarrow> False
               | Inr v \<Rightarrow> truthy_value (property_of v (js ''isValid''))
                          \<and> e = valid_entry (fs ! k) k v)"
      using t e' valid_entry_properties[OF v(3) v(4), of "fs ! k" k] by (simp add: v(1))
    moreover from k(1) have "k \<in> {0..<length fs}" by simp
    ultimately show "\<exists>i\<in>{0..<length fs}.
           property_of e (js ''index'') = VNum (int i)
           \<and> property_of e (js ''file'') = element (fs ! i)
           \<and> (case validator (fs ! i) of
                 Inl err \<Rightarrow> False
               | Inr v \<Rightarrow> truthy_value (property_of v (js ''isValid''))
                          \<and> e = valid_entry (fs ! i) i v)"
      by (rule bexI)
  qed
  have bad: "\<forall>e\<in>set es. \<exists>i\<in>{0..<length fs}.
           property_of e (js ''index'') = VNum (int i)
           \<and> property_of e (js ''file'') = element (fs ! i)
           \<and> (case validator (fs ! i) of
                 Inl err \<Rightarrow> False
               | Inr v \<Rightarrow> \<not> truthy_value (property_of v (js ''isValid''))
                          \<and> e = invalid_entry (fs ! i) i v)"
  proof
    fix e assume "e \<in> set es"
    then obtain k where k: "k < length fs" "\<not> ?ok (fs ! k)"
      and e: "e = invalid_entry (fs ! k) k (projr (validator (fs ! k)))"
      by (auto simp: es_def enumerate0_set)
    from at[OF k(1)] obtain v where v: "validator (fs ! k) = Inr v"
      "projr (validator (fs ! k)) = v"
      by blast
    from k(2) v(2) have t: "\<not> truthy_value (property_of v (js ''isValid''))" by simp
    from e v(2) have e': "e = invalid_entry (fs ! k) k v" by simp
    have "property_of e (js ''index'') = VNum (int k)
           \<and> property_of e (js ''file'') = element (fs ! k)
           \<and> (case validator (fs ! k) of
                 Inl err \<Rightarrow> False
               | Inr v \<Rightarrow> \<not> truthy_value (property_of v (js ''isValid''))
                          \<and> e = invalid_entry (fs ! k) k v)"
      using t e' invalid_entry_properties[of "fs ! k" k v] by (simp add: v(1))
    moreover from k(1) have "k \<in> {0..<length fs}" by simp
    ultimately show "\<exists>i\<in>{0..<length fs}.
           property_of e (js ''index'') = VNum (int i)
           \<and> property_of e (js ''file'') = element (fs ! i)
           \<and> (case validator (fs ! i) of
                 Inl err \<Rightarrow> False
               | Inr v \<Rightarrow> \<not> truthy_value (property_of v (js ''isValid''))
                          \<and> e = invalid_entry (fs ! i) i v)"
      by (rule bexI)
  qed
  have iv: "indices rs = map (\<lambda>i. VNum (int i)) (map fst (filter ?P ?zs))"
  proof -
    have "property_of (valid_entry f k (projr (validator f))) (js ''index'') = VNum (int k)"
      if "(k, f) \<in> set (filter ?P ?zs)" for k f
    proof -
      from that have k: "k < length fs" "f = fs ! k" "?ok (fs ! k)"
        by (auto simp: enumerate0_set)
      from at[OF k(1)] k(3) show ?thesis
        using valid_entry_properties(2)[of "projr (validator (fs ! k))" "fs ! k" k] k(2)
        by auto
    qed
    then show ?thesis
      by (auto simp: indices_def rs_def)
  qed
  have ie: "indices es = map (\<lambda>i. VNum (int i)) (map fst (filter (\<lambda>x. \<not> ?P x) ?zs))"
    by (auto simp: indices_def es_def invalid_entry_properties)
  have d: "distinct (map fst ?zs)" by simp
  define xs where "xs = map fst (filter ?P ?zs) @ map fst (filter (\<lambda>x. \<not> ?P x) ?zs)"
  have all: "indices rs @ indices es = map (\<lambda>i. VNum (int i)) xs"
    unfolding iv ie xs_def by simp
  from partition_indices[OF d, of ?P]
  have p: "distinct xs" "set xs = {0..<length fs}"
    unfolding xs_def by simp_all
  have part: "distinct (indices rs @ indices es)"
    "set (indices rs @ indices es) = (\<lambda>i. VNum (int i)) ` {0..<length fs}"
  proof -
    show "distinct (indices rs @ indices es)"
      unfolding all using p(1) by (simp add: distinct_map inj_on_def)
    show "set (indices rs @ indices es) = (\<lambda>i. VNum (int i)) ` {0..<length fs}"
      unfolding all using p(2) by (simp only: set_map)
  qed
  have sel: "validFiles sm = rs" "invalidFiles sm = es" "totalFiles sm = length fs"
    "validCount sm = length rs" "invalidCount sm = length es" "s_isValid sm = (length es = 0)"
    by (simp_all add: sm_def)
  have props: "partitions_files validator fs sm"
    unfolding partitions_files_def sel
    apply (intro conjI)
           apply (simp add: cnt)
          apply (rule refl)
         apply (rule refl)
        apply (rule refl)
       apply (rule ok)
      apply (rule bad)
     apply (rule part(1))
    apply (rule part(2))
    done
  have flag: "result_isValid (Summary sm) \<longleftrightarrow> invalidCount sm = 0"
    by (simp add: sel)
  have "fs \<noteq> [] \<longrightarrow>
         (\<exists>sm. validateMultipleFiles (Array fs) validator = Inr (Summary sm)
            \<and> partitions_files validator fs sm
            \<and> (result_isValid (Summary sm) \<longleftrightarrow> invalidCount sm = 0))"
  proof
    assume ne: "fs \<noteq> []"
    show "\<exists>sm. validateMultipleFiles (Array fs) validator = Inr (Summary sm)
            \<and> partitions_files validator fs sm
            \<and> (result_isValid (Summary sm) \<longleftrightarrow> invalidCount sm = 0)"
      using run[OF ne] props flag by - (rule exI[of _ sm], simp)
  qed
  then show ?thesis by (simp add: validateMultipleFiles_def)
qed

theorem validateMultipleFiles_partition_witness:
  "\<exists>sm. validateMultipleFiles (Array [Some \<lparr>file_name = Some (js ''a.zip''), file_size = 10\<rparr>,
                 Some \<lparr>file_name = Some (js ''b.txt''), file_size = 10\<rparr>])
            (\<lambda>fl. Inr (object_of (validateSessionFile fl))) = Inr (Summary sm)
     \<and> validCount sm + invalidCount sm = 2
     \<and> indices (validFiles sm) = [VNum 0] \<and> indices (invalidFiles sm) = [VNum 1]"
proof -
  let ?fs = "[Some \<lparr>file_name = Some (js ''a.zip''), file_size = 10\<rparr>,
                 Some \<lparr>file_name = Some (js ''b.txt''), file_size = 10\<rparr>]"
  let ?v = "\<lambda>fl. Inr (object_of (validateSessionFile fl))
              :: js_error + upload_file js_value"
  have h: "\<forall>f\<in>set ?fs. \<exists>v. ?v f = Inr v \<and> \<not> nullish v
                  \<and> (truthy_value (property_of v (js ''isValid'')) \<longrightarrow>
                       js ''file'' \<notin> fst ` set (own_properties v)
                       \<and> js ''index'' \<notin> fst ` set (own_properties v))"
    using object_of_keys(1-3) by blast
  have xa: "substring (toLowerCase (js ''a.zip'')) (lastIndexOf (js ''a.zip'') dot) = js ''.zip''"
    and xb: "substring (toLowerCase (js ''b.txt'')) (lastIndexOf (js ''b.txt'') dot) = js ''.txt''"
    by (simp_all add: js_eval)
  have ne: "js ''a.zip'' \<noteq> []" "js ''.txt'' \<noteq> js ''.session''" "js ''.txt'' \<noteq> js ''.zip''"
    by (simp_all add: js_def)
  have a: "isValid (validateSessionFile (Some \<lparr>file_name = Some (js ''a.zip''), file_size = 10\<rparr>))"
    by (simp add: validateSessionFile_isValid xa ne FILE_TYPES_ALL_SESSION_FILES_def
        MAX_SESSION_FILE_def)
  have b: "\<not> isValid (validateSessionFile (Some \<lparr>file_name = Some (js ''b.txt''), file_size = 10\<rparr>))"
    by (simp add: validateSessionFile_isValid xb ne FILE_TYPES_ALL_SESSION_FILES_def)
  from validateMultipleFiles_partition[OF h]
  obtain sm where r: "validateMultipleFiles (Array ?fs) ?v = Inr (Summary sm)"
    and p: "partitions_files ?v ?fs sm" by auto
  from r have "indices (validFiles sm) = [VNum 0] \<and> indices (invalidFiles sm) = [VNum 1]"
    by (auto simp: validateMultipleFiles_def a b object_of_keys indices_def
        valid_entry_properties invalid_entry_properties)
  with r p show ?thesis by (auto simp: partitions_files_def)
qed

text \<open>
  Claim C7 as it stands, for every validator, fails on three of them. One returns
  \<open>{isValid: true, index: 7}\<close> for every file: the entry of the one file of the array
  then has the index 7, not its index 0 in the input. One returns \<open>null\<close>: reading its
  \<open>isValid\<close> throws. The third is the \<open>'mixed'\<close> validator of this module on an array
  that holds \<open>null\<close>: it throws, and so does \<open>validateMultipleFiles\<close>, which returns no
  result at all.
\<close>

theorem validateMultipleFiles_counterexample:
  "validateMultipleFiles (Array [Some \<lparr>file_name = Some (js ''a.session''), file_size = 10\<rparr>])
       (\<lambda>fl. Inr (VObject [(js ''isValid'', VBool True), (js ''index'', VNum 7)]))
     = Inr (Summary
         \<lparr>s_isValid = True,
          validFiles =
            [VObject [(js ''file'',
                         VFile \<lparr>file_name = Some (js ''a.session''), file_size = 10\<rparr>),
                      (js ''index'', VNum 7), (js ''isValid'', VBool True)]],
          invalidFiles = [], totalFiles = 1, validCount = 1, invalidCount = 0\<rparr>)
   \<and> validateMultipleFiles
         (Array [Some \<lparr>file_name = Some (js ''a.session''), file_size = 10\<rparr>])
         (\<lambda>fl. Inr VNull) = Inl TypeError
   \<and> mixed_validator None = Inl TypeError
   \<and> validateFileUpload (Array [None]) (js ''mixed'') = Inl TypeError"
proof -
  have n: "validateMultipleFiles
         (Array [Some \<lparr>file_name = Some (js ''a.session''), file_size = 10\<rparr>])
         (\<lambda>fl. Inr VNull) = Inl TypeError"
    by (simp add: validateMultipleFiles_def)
  have ne: "js ''mixed'' \<noteq> js ''session''" "js ''mixed'' \<noteq> js ''image''"
    "js ''mixed'' \<noteq> js ''zip''"
    by (simp_all add: js_def)
  have m: "mixed_validator None = Inl TypeError"
    by (simp add: mixed_validator_def)
  have u: "validateFileUpload (Array [None]) (js ''mixed'') = Inl TypeError"
    by (simp add: validateFileUpload_def validators_def ne validateMultipleFiles_def m
        returned_def)
  have k: "js ''isValid'' \<noteq> js ''index''" "js ''file'' \<noteq> js ''index''"
    "js ''file'' \<noteq> js ''isValid''" "js ''index'' \<noteq> js ''isValid''"
    by (simp_all add: js_def)
  have v: "validateMultipleFiles (Array [Some \<lparr>file_name = Some (js ''a.session''), file_size = 10\<rparr>])
       (\<lambda>fl. Inr (VObject [(js ''isValid'', VBool True), (js ''index'', VNum 7)]))
     = Inr (Summary
         \<lparr>s_isValid = True,
          validFiles =
            [VObject [(js ''file'',
                         VFile \<lparr>file_name = Some (js ''a.session''), file_size = 10\<rparr>),
                      (js ''index'', VNum 7), (js ''isValid'', VBool True)]],
          invalidFiles = [], totalFiles = 1, validCount = 1, invalidCount = 0\<rparr>)"
    by (simp add: validateMultipleFiles_def property_of_def valid_entry_def spread_def
        element_def k)
  from v n m u show ?thesis by simp
qed

lemma endsWith_last: "endsWith s t \<Longrightarrow> t \<noteq> [] \<Longrightarrow> last s = last t"
proof -
  assume e: "endsWith s t" and t: "t \<noteq> []"
  from e have d: "drop (length s - length t) s = t" by (simp add: endsWith_def)
  have "s = take (length s - length t) s @ drop (length s - length t) s" by simp
  with d have "s = take (length s - length t) s @ t" by simp
  then have "last s = last (take (length s - length t) s @ t)" by simp
  with t show ?thesis by simp
qed

lemma zip_not_session: "endsWith n FILE_TYPES_ZIP \<Longrightarrow> \<not> endsWith n FILE_TYPES_SESSION"
proof
  assume z: "endsWith n FILE_TYPES_ZIP" and s: "endsWith n FILE_TYPES_SESSION"
  from endsWith_last[OF z] have "last n = 112" by (simp add: FILE_TYPES_ZIP_def js_def)
  moreover from endsWith_last[OF s] have "last n = 110"
    by (simp add: FILE_TYPES_SESSION_def js_def)
  ultimately show False by simp
qed

text \<open>
  Claim C8. Under the \<open>'zip'\<close> use case of \<open>validateFileUpload\<close>, and for a file whose
  name ends in \<open>.zip\<close> under \<open>'mixed'\<close>, the per-file result is the result of
  \<open>validateFileSize\<close> alone, since \<open>validateFileType(...) && validateFileSize(...)\<close> is
  always its second operand; so every file of at most \<open>50 * 1024 * 1024\<close> bytes, and with
  it one whose extension is not \<open>.zip\<close>, is reported valid under \<open>'zip'\<close>.
\<close>

theorem zip_use_case_checks_size_only:
  "validators (js ''zip'') = Some zip_validator
   \<and> zip_validator fl = Inr (validateFileSize fl MAX_ZIP_FILE 0)
   \<and> validateFileUpload files (js ''zip'')
       = validateMultipleFiles files (\<lambda>fl. Inr (object_of (validateFileSize fl MAX_ZIP_FILE 0)))
   \<and> (file_name f = Some n \<and> endsWith n (js ''.zip'') \<longrightarrow>
        mixed_validator (Some f) = Inr (validateFileSize (Some f) MAX_ZIP_FILE 0))
   \<and> (file_size f \<le> 50 * 1024 * 1024 \<longrightarrow>
        zip_validator (Some f)
          = Inr \<lparr>isValid = True, error = None, fileExtension = None, fileType = None,
                fileSize = Some (file_size f)\<rparr>
        \<and> (\<exists>sm. validateFileUpload (Array [Some f]) (js ''zip'') = Inr (Summary sm)
              \<and> s_isValid sm \<and> validCount sm = 1 \<and> invalidCount sm = 0
              \<and> validFiles sm
                  = [VObject [(js ''file'', VFile f), (js ''index'', VNum 0),
                              (js ''isValid'', VBool True),
                              (js ''fileSize'', VNum (int (file_size f)))]]))"
proof -
  have z: "zip_validator x = Inr (validateFileSize x MAX_ZIP_FILE 0)" for x
    by (simp add: zip_validator_def js_and_def truthy_object_def)
  have ne: "js ''zip'' \<noteq> js ''session''" "js ''zip'' \<noteq> js ''image''"
    by (simp_all add: js_def)
  have v: "validators (js ''zip'') = Some zip_validator"
    by (simp add: validators_def ne)
  have u: "validateFileUpload fs (js ''zip'')
       = validateMultipleFiles fs (\<lambda>fl. Inr (object_of (validateFileSize fl MAX_ZIP_FILE 0)))"
    for fs
    by (simp add: validateFileUpload_def v z returned_def)
  have m: "file_name f = Some n \<and> endsWith n (js ''.zip'') \<longrightarrow>
        mixed_validator (Some f) = Inr (validateFileSize (Some f) MAX_ZIP_FILE 0)"
    using zip_not_session[of n]
    by (auto simp: mixed_validator_def js_and_def truthy_object_def FILE_TYPES_ZIP_def)
  have o: "file_size f \<le> 50 * 1024 * 1024 \<Longrightarrow>
        (object_of (validateFileSize (Some f) MAX_ZIP_FILE 0) :: upload_file js_value)
          = VObject [(js ''isValid'', VBool True), (js ''fileSize'', VNum (int (file_size f)))]"
    by (simp add: validateFileSize_def MAX_ZIP_FILE_def object_of_def)
  have c: "file_size f \<le> 50 * 1024 * 1024 \<longrightarrow>
        zip_validator (Some f)
          = Inr \<lparr>isValid = True, error = None, fileExtension = None, fileType = None,
                fileSize = Some (file_size f)\<rparr>
        \<and> (\<exists>sm. validateFileUpload (Array [Some f]) (js ''zip'') = Inr (Summary sm)
              \<and> s_isValid sm \<and> validCount sm = 1 \<and> invalidCount sm = 0
              \<and> validFiles sm
                  = [VObject [(js ''file'', VFile f), (js ''index'', VNum 0),
                              (js ''isValid'', VBool True),
                              (js ''fileSize'', VNum (int (file_size f)))]])"
  proof
    assume le: "file_size f \<le> 50 * 1024 * 1024"
    have a: "zip_validator (Some f)
          = Inr \<lparr>isValid = True, error = None, fileExtension = None, fileType = None,
                fileSize = Some (file_size f)\<rparr>"
      using le by (simp add: z validateFileSize_def MAX_ZIP_FILE_def)
    have b: "validateFileUpload (Array [Some f]) (js ''zip'')
        = Inr (Summary \<lparr>s_isValid = True,
             validFiles = [VObject [(js ''file'', VFile f), (js ''index'', VNum 0),
                              (js ''isValid'', VBool True),
                              (js ''fileSize'', VNum (int (file_size f)))]],
             invalidFiles = [], totalFiles = 1, validCount = 1, invalidCount = 0\<rparr>)"
      by (simp add: u validateMultipleFiles_def o[OF le] property_of_def valid_entry_def
          spread_def element_def js_keys)
    from a b show "zip_validator (Some f)
          = Inr \<lparr>isValid = True, error = None, fileExtension = None, fileType = None,
                fileSize = Some (file_size f)\<rparr>
        \<and> (\<exists>sm. validateFileUpload (Array [Some f]) (js ''zip'') = Inr (Summary sm)
              \<and> s_isValid sm \<and> validCount sm = 1 \<and> invalidCount sm = 0
              \<and> validFiles sm
                  = [VObject [(js ''file'', VFile f), (js ''index'', VNum 0),
                              (js ''isValid'', VBool True),
                              (js ''fileSize'', VNum (int (file_size f)))]])"
      by simp
  qed
  from v z u m c show ?thesis by blast
qed

theorem zip_use_case_checks_size_only_witness:
  "toLowerCase (extension_of (js ''notes.txt'')) = js ''.txt''
   \<and> \<not> isValid (validateFileType (Some \<lparr>file_name = Some (js ''notes.txt''), file_size = 100\<rparr>)
                   [FILE_TYPES_ZIP])
   \<and> (\<exists>sm. validateFileUpload
              (Array [Some \<lparr>file_name = Some (js ''notes.txt''), file_size = 100\<rparr>]) (js ''zip'')
            = Inr (Summary sm) \<and> s_isValid sm \<and> validCount sm = 1)
   \<and> endsWith (js ''a.zip'') (js ''.zip'')
   \<and> mixed_validator (Some \<lparr>file_name = Some (js ''a.zip''), file_size = 100\<rparr>)
       = Inr (validateFileSize (Some \<lparr>file_name = Some (js ''a.zip''), file_size = 100\<rparr>)
                MAX_ZIP_FILE 0)"
proof -
  have x: "toLowerCase (extension_of (js ''notes.txt'')) = js ''.txt''"
    and y: "substring (toLowerCase (js ''notes.txt'')) (lastIndexOf (js ''notes.txt'') dot)
            = js ''.txt''"
    and e: "endsWith (js ''a.zip'') (js ''.zip'')"
    by (simp_all add: js_eval)
  have ne: "js ''.txt'' \<noteq> js ''.zip''" by (simp add: js_def)
  have t: "\<not> isValid (validateFileType
               (Some \<lparr>file_name = Some (js ''notes.txt''), file_size = 100\<rparr>) [FILE_TYPES_ZIP])"
    by (simp add: validateFileType_valid_iff y ne FILE_TYPES_ZIP_def)
  show ?thesis
    using zip_use_case_checks_size_only
      [of "Some \<lparr>file_name = Some (js ''notes.txt''), file_size = 100\<rparr>" "Array []"
        "\<lparr>file_name = Some (js ''notes.txt''), file_size = 100\<rparr>" "js ''notes.txt''"]
     zip_use_case_checks_size_only
      [of "Some \<lparr>file_name = Some (js ''a.zip''), file_size = 100\<rparr>" "Array []"
        "\<lparr>file_name = Some (js ''a.zip''), file_size = 100\<rparr>" "js ''a.zip''"]
     x e t
    by auto
qed

section \<open>Properties of the request controller\<close>

lemma distinct_snd_delete:
  "distinct (map snd al) \<Longrightarrow> distinct (map snd (AList.delete k al))"
  by (simp add: AList.delete_eq distinct_map_filter)

lemma set_delete_subset: "set (AList.delete k al) \<subseteq> set al"
  by (auto simp: AList.delete_eq)

lemma snd_set_update:
  "snd ` set (AList.update k v al) \<subseteq> insert v (snd ` set al)"
  by (induction al) auto

lemma in_set_updateD:
  "(a, b) \<in> set (AList.update k v al) \<Longrightarrow> (a = k \<and> b = v) \<or> (a, b) \<in> set al"
  by (induction al) (auto split: if_splits)

lemma distinct_snd_update:
  "distinct (map snd al) \<Longrightarrow> v \<notin> snd ` set al \<Longrightarrow> distinct (map snd (AList.update k v al))"
proof (induction al)
  case Nil
  then show ?case by simp
next
  case (Cons p al)
  then show ?case using snd_set_update[of k v al] by (cases p) (auto simp: image_iff)
qed

lemma rc_inv_clearRequestTimeout: "rc_inv s \<Longrightarrow> rc_inv (clearRequestTimeout r s)"
  using set_delete_subset[of r "requestTimeouts s"]
  by (auto simp: rc_inv_def clearRequestTimeout_def clearTimeout_def Let_def distinct_delete
      split: option.splits)

lemma rc_inv_cancelRequest: "rc_inv s \<Longrightarrow> rc_inv (snd (cancelRequest r s))"
proof (cases "map_of (abortControllers s) r")
  case None
  assume "rc_inv s"
  with None show ?thesis by (simp add: cancelRequest_def)
next
  case (Some c)
  assume inv: "rc_inv s"
  let ?s3 = "s\<lparr>signals := (signals s)(c \<mapsto> True), calls := calls s @ [Abort c],
               abortControllers := AList.delete r (abortControllers s),
               activeRequests := AList.delete r (activeRequests s)\<rparr>"
  from Some have mem: "(r, c) \<in> set (abortControllers s)" by (rule map_of_SomeD)
  have gone: "c \<notin> snd ` set (AList.delete r (abortControllers s))"
  proof
    assume "c \<in> snd ` set (AList.delete r (abortControllers s))"
    then obtain r' where r': "(r', c) \<in> set (abortControllers s)" "r' \<noteq> r"
      by (auto simp: AList.delete_eq)
    from inv have "distinct (map snd (abortControllers s))" by (simp add: rc_inv_def)
    with mem r' show False
      by (metis distinct_map inj_on_def snd_conv prod.inject)
  qed
  have "rc_inv ?s3"
    using inv gone set_delete_subset[of r "abortControllers s"]
    by (auto simp: rc_inv_def distinct_delete distinct_snd_delete)
  then have "rc_inv (clearRequestTimeout r ?s3)" by (rule rc_inv_clearRequestTimeout)
  with Some show ?thesis by (simp add: cancelRequest_def abort_def Let_def)
qed


lemma rc_inv_createAbortController: "rc_inv s \<Longrightarrow> rc_inv (snd (createAbortController r s))"
proof -
  assume "rc_inv s"
  then have inv: "rc_inv (snd (cancelRequest r s))" by (rule rc_inv_cancelRequest)
  define s1 where "s1 = snd (cancelRequest r s)"
  from inv have fresh: "nextController s1 \<notin> snd ` set (abortControllers s1)"
    by (auto simp: rc_inv_def s1_def)
  show ?thesis
    using inv fresh
    unfolding createAbortController_def Let_def s1_def[symmetric]
    by (auto simp: rc_inv_def distinct_update distinct_snd_update dest!: in_set_updateD)
qed

lemma rc_inv_setRequestTimeout: "rc_inv s \<Longrightarrow> rc_inv (setRequestTimeout r ms cb s)"
proof -
  assume "rc_inv s"
  then have inv: "rc_inv (clearRequestTimeout r s)" by (rule rc_inv_clearRequestTimeout)
  define s1 where "s1 = clearRequestTimeout r s"
  show ?thesis
    using inv
    unfolding setRequestTimeout_def setTimeout_def Let_def s1_def[symmetric]
    by (auto simp: rc_inv_def distinct_update dest!: in_set_updateD)
qed

lemma fold_clearTimeout_frame:
  "abortControllers (fold (\<lambda>(r, t). clearTimeout t) xs s) = abortControllers s
   \<and> activeRequests (fold (\<lambda>(r, t). clearTimeout t) xs s) = activeRequests s
   \<and> requestTimeouts (fold (\<lambda>(r, t). clearTimeout t) xs s) = requestTimeouts s
   \<and> signals (fold (\<lambda>(r, t). clearTimeout t) xs s) = signals s
   \<and> nextController (fold (\<lambda>(r, t). clearTimeout t) xs s) = nextController s
   \<and> nextTimeout (fold (\<lambda>(r, t). clearTimeout t) xs s) = nextTimeout s"
  by (induction xs arbitrary: s) (auto simp: clearTimeout_def)

lemma fold_abort_frame:
  "abortControllers (fold (\<lambda>(r, c). abort c) xs s) = abortControllers s
   \<and> activeRequests (fold (\<lambda>(r, c). abort c) xs s) = activeRequests s
   \<and> requestTimeouts (fold (\<lambda>(r, c). abort c) xs s) = requestTimeouts s
   \<and> pendingTimeouts (fold (\<lambda>(r, c). abort c) xs s) = pendingTimeouts s
   \<and> nextController (fold (\<lambda>(r, c). abort c) xs s) = nextController s
   \<and> nextTimeout (fold (\<lambda>(r, c). abort c) xs s) = nextTimeout s"
  by (induction xs arbitrary: s) (auto simp: abort_def)

lemma rc_inv_clearAllTimeouts: "rc_inv s \<Longrightarrow> rc_inv (clearAllTimeouts s)"
  by (simp add: rc_inv_def clearAllTimeouts_def Let_def fold_clearTimeout_frame)

lemma rc_inv_cancelAllRequests: "rc_inv s \<Longrightarrow> rc_inv (cancelAllRequests s)"
  by (simp add: rc_inv_def cancelAllRequests_def clearAllTimeouts_def Let_def
      fold_clearTimeout_frame fold_abort_frame)

lemma rc_inv_markRequestActive: "rc_inv s \<Longrightarrow> rc_inv (markRequestActive r ty ts now s)"
  by (simp add: rc_inv_def markRequestActive_def distinct_update)

lemma rc_inv_markRequestCompleted: "rc_inv s \<Longrightarrow> rc_inv (markRequestCompleted r s)"
proof -
  assume inv: "rc_inv s"
  have "rc_inv (s\<lparr>activeRequests := AList.delete r (activeRequests s),
                  abortControllers := AList.delete r (abortControllers s)\<rparr>)"
    using inv set_delete_subset[of r "abortControllers s"]
    by (auto simp: rc_inv_def distinct_delete distinct_snd_delete)
  then show ?thesis
    by (simp add: markRequestCompleted_def Let_def rc_inv_clearRequestTimeout)
qed

lemma rc_inv_calls: "rc_inv (s\<lparr>calls := cs\<rparr>) = rc_inv s"
  by (simp add: rc_inv_def)

lemma rc_inv_createCancellableRequest:
  "rc_inv s \<Longrightarrow> createCancellableRequest this r opts now ts s = Inr (c, s') \<Longrightarrow> rc_inv s'"
  using rc_inv_createAbortController[of s r]
  by (auto simp: createCancellableRequest_def Let_def rc_inv_calls rc_inv_markRequestActive
      rc_inv_setRequestTimeout split: prod.splits receiver.splits)

lemma rc_inv_createCancellableOperation:
  "rc_inv s \<Longrightarrow> createCancellableOperation this r opts now ts s = Inr (c, s') \<Longrightarrow> rc_inv s'"
  using rc_inv_createAbortController[of s r]
  by (auto simp: createCancellableOperation_def Let_def rc_inv_calls rc_inv_markRequestActive
      rc_inv_setRequestTimeout split: prod.splits receiver.splits)

lemma rc_inv_requestSettles: "rc_inv s \<Longrightarrow> rc_inv (snd (requestSettles r opts outcome s))"
  by (auto simp: requestSettles_def rc_inv_calls rc_inv_markRequestCompleted
      split: settlement.splits option.splits)

lemma rc_inv_operationSettles: "rc_inv s \<Longrightarrow> rc_inv (snd (operationSettles r opts outcome s))"
  by (auto simp: operationSettles_def rc_inv_calls rc_inv_markRequestCompleted
      split: settlement.splits option.splits)

lemma rc_inv_pending: "rc_inv (s\<lparr>pendingTimeouts := p\<rparr>) = rc_inv s"
  by (simp add: rc_inv_def)

lemma rc_inv_timeoutFires: "rc_inv s \<Longrightarrow> rc_inv (timeoutFires t s)"
  by (auto simp: timeoutFires_def Let_def rc_inv_calls rc_inv_pending rc_inv_cancelRequest
      split: option.splits)

lemma rc_inv_RequestController: "rc_inv RequestController"
  by (simp add: rc_inv_def RequestController_def)

lemma rc_inv_step: "rc_inv s \<Longrightarrow> rc_inv (rc_step op s)"
  by (cases op)
    (auto simp: rc_inv_createAbortController rc_inv_cancelRequest rc_inv_cancelAllRequests
      rc_inv_setRequestTimeout rc_inv_clearRequestTimeout rc_inv_clearAllTimeouts
      rc_inv_markRequestActive rc_inv_markRequestCompleted
      rc_inv_requestSettles rc_inv_operationSettles
      rc_inv_timeoutFires cleanup_def
      intro: rc_inv_createCancellableRequest rc_inv_createCancellableOperation
      split: sum.splits)

lemma rc_reachable_inv: "rc_reachable s \<Longrightarrow> rc_inv s"
  by (induction rule: rc_reachable.induct) (simp_all add: rc_inv_RequestController rc_inv_step)

lemma delete_absent: "map_of al k = None \<Longrightarrow> AList.delete k al = al"
  by (simp add: map_of_eq_None_iff)

lemma cancelRequest_unregistered:
  "map_of (abortControllers s) r = None \<Longrightarrow> cancelRequest r s = (False, s)"
  by (simp add: cancelRequest_def)

lemma cancelRequest_registered:
  assumes inv: "rc_inv s" and reg: "map_of (abortControllers s) r = Some c"
  shows "fst (cancelRequest r s)"
    and "signals (snd (cancelRequest r s)) = (signals s)(c \<mapsto> True)"
    and "abortControllers (snd (cancelRequest r s)) = AList.delete r (abortControllers s)"
    and "activeRequests (snd (cancelRequest r s)) = AList.delete r (activeRequests s)"
    and "requestTimeouts (snd (cancelRequest r s)) = AList.delete r (requestTimeouts s)"
    and "pendingTimeouts (snd (cancelRequest r s)) =
           (case map_of (requestTimeouts s) r of
              None \<Rightarrow> pendingTimeouts s | Some t \<Rightarrow> (pendingTimeouts s)(t := None))"
    and "calls (snd (cancelRequest r s)) =
           calls s @ Abort c #
             (case map_of (requestTimeouts s) r of None \<Rightarrow> [] | Some t \<Rightarrow> [ClearTimeout t])"
    and "nextController (snd (cancelRequest r s)) = nextController s"
    and "nextTimeout (snd (cancelRequest r s)) = nextTimeout s"
proof -
  have nz: "map_of (requestTimeouts s) r = Some t \<Longrightarrow> t \<noteq> 0" for t
  proof -
    assume "map_of (requestTimeouts s) r = Some t"
    then have "(r, t) \<in> set (requestTimeouts s)" by (rule map_of_SomeD)
    then have "t \<in> snd ` set (requestTimeouts s)" by force
    with inv show "t \<noteq> 0" by (auto simp: rc_inv_def)
  qed
  show "fst (cancelRequest r s)"
    and "signals (snd (cancelRequest r s)) = (signals s)(c \<mapsto> True)"
    and "abortControllers (snd (cancelRequest r s)) = AList.delete r (abortControllers s)"
    and "activeRequests (snd (cancelRequest r s)) = AList.delete r (activeRequests s)"
    and "requestTimeouts (snd (cancelRequest r s)) = AList.delete r (requestTimeouts s)"
    and "pendingTimeouts (snd (cancelRequest r s)) =
           (case map_of (requestTimeouts s) r of
              None \<Rightarrow> pendingTimeouts s | Some t \<Rightarrow> (pendingTimeouts s)(t := None))"
    and "calls (snd (cancelRequest r s)) =
           calls s @ Abort c #
             (case map_of (requestTimeouts s) r of None \<Rightarrow> [] | Some t \<Rightarrow> [ClearTimeout t])"
    and "nextController (snd (cancelRequest r s)) = nextController s"
    and "nextTimeout (snd (cancelRequest r s)) = nextTimeout s"
    using reg nz
    by (auto simp: cancelRequest_def abort_def clearRequestTimeout_def clearTimeout_def Let_def
        delete_absent split: option.splits)
qed

text \<open>
  Claim C2. For every request id, \<open>cancelRequest(requestId)\<close> returns true, aborts the
  registered AbortController and removes the id from \<open>abortControllers\<close>,
  \<open>activeRequests\<close> and \<open>requestTimeouts\<close>, clearing its pending timeout, if and only if
  an abort controller is registered for the id; when none is registered it returns false
  and leaves the three maps, and everything else, as they were.
\<close>

theorem cancelRequest_iff_registered:
  assumes "rc_reachable s"
  shows "(fst (cancelRequest r s) \<longleftrightarrow> map_of (abortControllers s) r \<noteq> None)
     \<and> (map_of (abortControllers s) r = None \<longrightarrow> cancelRequest r s = (False, s))
     \<and> (\<forall>c. map_of (abortControllers s) r = Some c \<longrightarrow>
           fst (cancelRequest r s)
           \<and> signals (snd (cancelRequest r s)) c = Some True
           \<and> abortControllers (snd (cancelRequest r s)) = AList.delete r (abortControllers s)
           \<and> activeRequests (snd (cancelRequest r s)) = AList.delete r (activeRequests s)
           \<and> requestTimeouts (snd (cancelRequest r s)) = AList.delete r (requestTimeouts s)
           \<and> r \<notin> fst ` set (abortControllers (snd (cancelRequest r s)))
           \<and> r \<notin> fst ` set (activeRequests (snd (cancelRequest r s)))
           \<and> r \<notin> fst ` set (requestTimeouts (snd (cancelRequest r s)))
           \<and> (\<forall>t. map_of (requestTimeouts s) r = Some t \<longrightarrow>
                 pendingTimeouts (snd (cancelRequest r s)) t = None
                 \<and> ClearTimeout t \<in> set (calls (snd (cancelRequest r s))))
           \<and> Abort c \<in> set (calls (snd (cancelRequest r s))))"
proof -
  from assms have inv: "rc_inv s" by (rule rc_reachable_inv)
  have a: "map_of (abortControllers s) r = None \<longrightarrow> cancelRequest r s = (False, s)"
    by (simp add: cancelRequest_unregistered)
  have b: "\<forall>c. map_of (abortControllers s) r = Some c \<longrightarrow>
           fst (cancelRequest r s)
           \<and> signals (snd (cancelRequest r s)) c = Some True
           \<and> abortControllers (snd (cancelRequest r s)) = AList.delete r (abortControllers s)
           \<and> activeRequests (snd (cancelRequest r s)) = AList.delete r (activeRequests s)
           \<and> requestTimeouts (snd (cancelRequest r s)) = AList.delete r (requestTimeouts s)
           \<and> r \<notin> fst ` set (abortControllers (snd (cancelRequest r s)))
           \<and> r \<notin> fst ` set (activeRequests (snd (cancelRequest r s)))
           \<and> r \<notin> fst ` set (requestTimeouts (snd (cancelRequest r s)))
           \<and> (\<forall>t. map_of (requestTimeouts s) r = Some t \<longrightarrow>
                 pendingTimeouts (snd (cancelRequest r s)) t = None
                 \<and> ClearTimeout t \<in> set (calls (snd (cancelRequest r s))))
           \<and> Abort c \<in> set (calls (snd (cancelRequest r s)))"
  proof (intro allI impI)
    fix c assume reg: "map_of (abortControllers s) r = Some c"
    note f = cancelRequest_registered[OF inv reg]
    show "fst (cancelRequest r s)
           \<and> signals (snd (cancelRequest r s)) c = Some True
           \<and> abortControllers (snd (cancelRequest r s)) = AList.delete r (abortControllers s)
           \<and> activeRequests (snd (cancelRequest r s)) = AList.delete r (activeRequests s)
           \<and> requestTimeouts (snd (cancelRequest r s)) = AList.delete r (requestTimeouts s)
           \<and> r \<notin> fst ` set (abortControllers (snd (cancelRequest r s)))
           \<and> r \<notin> fst ` set (activeRequests (snd (cancelRequest r s)))
           \<and> r \<notin> fst ` set (requestTimeouts (snd (cancelRequest r s)))
           \<and> (\<forall>t. map_of (requestTimeouts s) r = Some t \<longrightarrow>
                 pendingTimeouts (snd (cancelRequest r s)) t = None
                 \<and> ClearTimeout t \<in> set (calls (snd (cancelRequest r s))))
           \<and> Abort c \<in> set (calls (snd (cancelRequest r s)))"
      unfolding f using f(1) by (simp add: delete_notin_dom)
  qed
  have c: "fst (cancelRequest r s) \<longleftrightarrow> map_of (abortControllers s) r \<noteq> None"
    using a b by (cases "map_of (abortControllers s) r") auto
  from a b c show ?thesis by blast
qed

lemma registered_timeout_nonzero:
  "rc_inv s \<Longrightarrow> map_of (requestTimeouts s) r = Some t \<Longrightarrow> 0 < t \<and> t < nextTimeout s"
proof -
  assume inv: "rc_inv s" and "map_of (requestTimeouts s) r = Some t"
  then have "(r, t) \<in> set (requestTimeouts s)" by (simp add: map_of_SomeD)
  then have "t \<in> snd ` set (requestTimeouts s)" by force
  with inv show ?thesis by (auto simp: rc_inv_def)
qed

lemma registered_controller_live:
  "rc_inv s \<Longrightarrow> map_of (abortControllers s) r = Some c \<Longrightarrow>
     c < nextController s \<and> signals s c = Some False"
proof -
  assume inv: "rc_inv s" and "map_of (abortControllers s) r = Some c"
  then have "(r, c) \<in> set (abortControllers s)" by (simp add: map_of_SomeD)
  then have "c \<in> snd ` set (abortControllers s)" by force
  with inv show ?thesis by (auto simp: rc_inv_def)
qed

lemma clearRequestTimeout_fields:
  assumes inv: "rc_inv s"
  shows "abortControllers (clearRequestTimeout r s) = abortControllers s"
    and "activeRequests (clearRequestTimeout r s) = activeRequests s"
    and "signals (clearRequestTimeout r s) = signals s"
    and "nextController (clearRequestTimeout r s) = nextController s"
    and "nextTimeout (clearRequestTimeout r s) = nextTimeout s"
    and "requestTimeouts (clearRequestTimeout r s) = AList.delete r (requestTimeouts s)"
    and "pendingTimeouts (clearRequestTimeout r s) =
           (case map_of (requestTimeouts s) r of
              None \<Rightarrow> pendingTimeouts s | Some t \<Rightarrow> (pendingTimeouts s)(t := None))"
    and "calls (clearRequestTimeout r s) =
           calls s @ (case map_of (requestTimeouts s) r of None \<Rightarrow> [] | Some t \<Rightarrow> [ClearTimeout t])"
  using registered_timeout_nonzero[OF inv, of r]
  by (auto simp: clearRequestTimeout_def clearTimeout_def Let_def delete_absent
      split: option.splits)

lemma setRequestTimeout_fields:
  assumes inv: "rc_inv s"
  shows "abortControllers (setRequestTimeout r ms cb s) = abortControllers s"
    and "activeRequests (setRequestTimeout r ms cb s) = activeRequests s"
    and "signals (setRequestTimeout r ms cb s) = signals s"
    and "nextController (setRequestTimeout r ms cb s) = nextController s"
    and "nextTimeout (setRequestTimeout r ms cb s) = nextTimeout s + 1"
    and "requestTimeouts (setRequestTimeout r ms cb s) =
           AList.update r (nextTimeout s) (AList.delete r (requestTimeouts s))"
    and "pendingTimeouts (setRequestTimeout r ms cb s) (nextTimeout s) =
           Some \<lparr>delay = ms, for_request = r, on_timeout = cb\<rparr>"
    and "calls (setRequestTimeout r ms cb s) =
           calls s @ (case map_of (requestTimeouts s) r of None \<Rightarrow> [] | Some t \<Rightarrow> [ClearTimeout t])
             @ [SetTimeout (nextTimeout s) ms]"
  by (simp_all add: setRequestTimeout_def setTimeout_def Let_def clearRequestTimeout_fields[OF inv])

lemma createAbortController_fields:
  assumes inv: "rc_inv s"
  shows "fst (createAbortController r s) = nextController s
      \<and> abortControllers (snd (createAbortController r s)) =
           AList.update r (nextController s) (AList.delete r (abortControllers s))
      \<and> activeRequests (snd (createAbortController r s)) =
           (case map_of (abortControllers s) r of
              None \<Rightarrow> activeRequests s | Some c \<Rightarrow> AList.delete r (activeRequests s))
      \<and> requestTimeouts (snd (createAbortController r s)) =
           (case map_of (abortControllers s) r of
              None \<Rightarrow> requestTimeouts s | Some c \<Rightarrow> AList.delete r (requestTimeouts s))
      \<and> signals (snd (createAbortController r s)) =
           (case map_of (abortControllers s) r of
              None \<Rightarrow> signals s | Some c \<Rightarrow> (signals s)(c \<mapsto> True))(nextController s \<mapsto> False)
      \<and> nextController (snd (createAbortController r s)) = nextController s + 1
      \<and> nextTimeout (snd (createAbortController r s)) = nextTimeout s
      \<and> calls (snd (createAbortController r s)) =
           calls s @ (case map_of (abortControllers s) r of
                        None \<Rightarrow> []
                      | Some c \<Rightarrow> Abort c # (case map_of (requestTimeouts s) r of
                                                None \<Rightarrow> [] | Some t \<Rightarrow> [ClearTimeout t]))"
proof (cases "map_of (abortControllers s) r")
  case None
  then show ?thesis
    by (simp add: createAbortController_def Let_def cancelRequest_unregistered delete_absent)
next
  case (Some c)
  note f = cancelRequest_registered[OF inv Some]
  show ?thesis
    by (simp add: createAbortController_def Let_def f Some)
qed

text \<open>
  Claim C10. For every request id at most one AbortController is registered in
  \<open>abortControllers\<close> at any time: \<open>createAbortController(requestId)\<close> first cancels
  (aborts and deletes) a controller already registered under the id and then installs
  the new one, and every operation of the controller keeps this.
\<close>

theorem one_controller_per_request:
  assumes "rc_reachable s"
  shows "distinct (map fst (abortControllers s))
     \<and> card {c. (r, c) \<in> set (abortControllers s)} \<le> 1
     \<and> card {c. (r, c) \<in> set (abortControllers (rc_step op s))} \<le> 1
     \<and> {c. (r, c) \<in> set (abortControllers (snd (createAbortController r s)))}
          = {fst (createAbortController r s)}
     \<and> signals (snd (createAbortController r s)) (fst (createAbortController r s)) = Some False
     \<and> (\<forall>c. map_of (abortControllers s) r = Some c \<longrightarrow>
           c \<noteq> fst (createAbortController r s)
           \<and> signals (snd (createAbortController r s)) c = Some True
           \<and> c \<notin> snd ` set (abortControllers (snd (createAbortController r s)))
           \<and> (\<exists>rest. calls (snd (createAbortController r s)) = calls s @ Abort c # rest))"
proof -
  have one: "card {c. (r, c) \<in> set al} \<le> 1" if "distinct (map fst al)"
    for al :: "(request_id \<times> controller) list"
  proof -
    have "{c. (r, c) \<in> set al} \<subseteq> {c. map_of al r = Some c}"
      using that by auto
    also have "\<dots> \<subseteq> (case map_of al r of None \<Rightarrow> {} | Some c \<Rightarrow> {c})"
      by (auto split: option.splits)
    finally have sub: "{c. (r, c) \<in> set al} \<subseteq> (case map_of al r of None \<Rightarrow> {} | Some c \<Rightarrow> {c})" .
    have le: "card (case map_of al r of None \<Rightarrow> {} | Some c \<Rightarrow> {c}) \<le> 1"
      by (simp split: option.splits)
    have fin: "finite (case map_of al r of None \<Rightarrow> {} | Some c \<Rightarrow> {c})"
      by (simp split: option.splits)
    from card_mono[OF fin sub] le show ?thesis by linarith
  qed
  from assms have inv: "rc_inv s" by (rule rc_reachable_inv)
  then have d: "distinct (map fst (abortControllers s))" by (simp add: rc_inv_def)
  from inv have inv': "rc_inv (rc_step op s)" by (rule rc_inv_step)
  then have d': "distinct (map fst (abortControllers (rc_step op s)))" by (simp add: rc_inv_def)
  let ?c = "fst (createAbortController r s)"
  let ?s = "snd (createAbortController r s)"
  note f = createAbortController_fields[OF inv, of r]
  have invc: "rc_inv ?s" using inv by (rule rc_inv_createAbortController)
  then have dc: "distinct (map fst (abortControllers ?s))" by (simp add: rc_inv_def)
  have reg: "map_of (abortControllers ?s) r = Some ?c"
    by (simp add: f update_conv')
  have set_eq: "{c. (r, c) \<in> set (abortControllers ?s)} = {?c}"
  proof (intro set_eqI iffI)
    fix c assume "c \<in> {c. (r, c) \<in> set (abortControllers ?s)}"
    then have "map_of (abortControllers ?s) r = Some c"
      using map_of_is_SomeI[OF dc] by simp
    with reg show "c \<in> {?c}" by simp
  next
    fix c assume "c \<in> {?c}"
    with map_of_SomeD[OF reg] show "c \<in> {c. (r, c) \<in> set (abortControllers ?s)}" by simp
  qed
  have new: "signals ?s ?c = Some False" by (simp add: f)
  have old: "\<forall>c. map_of (abortControllers s) r = Some c \<longrightarrow>
           c \<noteq> ?c \<and> signals ?s c = Some True
           \<and> c \<notin> snd ` set (abortControllers ?s)
           \<and> (\<exists>rest. calls ?s = calls s @ Abort c # rest)"
  proof (intro allI impI)
    fix c assume c: "map_of (abortControllers s) r = Some c"
    from registered_controller_live[OF inv c] have lt: "c < nextController s" by simp
    then have ne: "c \<noteq> ?c" by (simp add: f)
    have sig: "signals ?s c = Some True" using lt by (simp add: f c)
    have "c \<notin> snd ` set (abortControllers ?s)"
    proof
      assume "c \<in> snd ` set (abortControllers ?s)"
      with registered_controller_live[OF invc, of _ c] invc dc
      have "signals ?s c = Some False"
        by (auto simp: rc_inv_def)
      with sig show False by simp
    qed
    moreover have "\<exists>rest. calls ?s = calls s @ Abort c # rest" by (simp add: f c)
    ultimately show "c \<noteq> ?c \<and> signals ?s c = Some True
           \<and> c \<notin> snd ` set (abortControllers ?s)
           \<and> (\<exists>rest. calls ?s = calls s @ Abort c # rest)"
      using ne sig by simp
  qed
  from d one[OF d] one[OF d'] set_eq new old show ?thesis by blast
qed

lemma started_request:
  "createCancellableRequest Controller ''req-1''
        \<lparr>timeout = None, onTimeout = Some 7, onCancel = None\<rparr> 0 ''now'' RequestController
   = Inr (0, \<lparr>abortControllers = [(''req-1'', 0)],
      activeRequests = [(''req-1'', \<lparr>startTime = 0, request_type = Some ''api_call'',
                                   timestamp = Some ''now''\<rparr>)],
      requestTimeouts = [(''req-1'', 1)],
      signals = [0 \<mapsto> False], nextController = 1,
      pendingTimeouts = [1 \<mapsto> \<lparr>delay = 30000, for_request = ''req-1'', on_timeout = Some 7\<rparr>],
      nextTimeout = 2, calls = [SetTimeout 1 30000, ApiCall 0]\<rparr>)"
  by (simp add: createCancellableRequest_def createAbortController_def cancelRequest_def
      setRequestTimeout_def setTimeout_def clearRequestTimeout_def markRequestActive_def
      RequestController_def Let_def)

theorem cancelRequest_iff_registered_witness:
  "rc_reachable (rc_step (CreateCancellableRequest Controller ''req-1''
        \<lparr>timeout = None, onTimeout = Some 7, onCancel = None\<rparr> 0 ''now'') RequestController)
   \<and> map_of (abortControllers (rc_step (CreateCancellableRequest Controller ''req-1''
        \<lparr>timeout = None, onTimeout = Some 7, onCancel = None\<rparr> 0 ''now'') RequestController))
        ''req-1'' = Some 0
   \<and> fst (cancelRequest ''req-1'' (rc_step (CreateCancellableRequest Controller ''req-1''
        \<lparr>timeout = None, onTimeout = Some 7, onCancel = None\<rparr> 0 ''now'') RequestController))
   \<and> requestTimeouts (snd (cancelRequest ''req-1'' (rc_step (CreateCancellableRequest Controller ''req-1''
        \<lparr>timeout = None, onTimeout = Some 7, onCancel = None\<rparr> 0 ''now'') RequestController)))
       = []
   \<and> pendingTimeouts (snd (cancelRequest ''req-1'' (rc_step (CreateCancellableRequest Controller ''req-1''
        \<lparr>timeout = None, onTimeout = Some 7, onCancel = None\<rparr> 0 ''now'') RequestController)))
       1 = None
   \<and> signals (snd (cancelRequest ''req-1'' (rc_step (CreateCancellableRequest Controller ''req-1''
        \<lparr>timeout = None, onTimeout = Some 7, onCancel = None\<rparr> 0 ''now'') RequestController)))
       0 = Some True
   \<and> map_of (abortControllers (rc_step (CreateCancellableRequest Controller ''req-1''
        \<lparr>timeout = None, onTimeout = Some 7, onCancel = None\<rparr> 0 ''now'') RequestController))
        ''req-2'' = None
   \<and> \<not> fst (cancelRequest ''req-2'' (rc_step (CreateCancellableRequest Controller ''req-1''
        \<lparr>timeout = None, onTimeout = Some 7, onCancel = None\<rparr> 0 ''now'') RequestController))"
proof -
  let ?s = "rc_step (CreateCancellableRequest Controller ''req-1''
        \<lparr>timeout = None, onTimeout = Some 7, onCancel = None\<rparr> 0 ''now'') RequestController"
  have r: "rc_reachable ?s" by (rule rc_next[OF rc_initial])
  have a: "map_of (abortControllers ?s) ''req-1'' = Some 0"
    and b: "map_of (abortControllers ?s) ''req-2'' = None"
    and t: "map_of (requestTimeouts ?s) ''req-1'' = Some 1"
    and d: "AList.delete ''req-1'' (requestTimeouts ?s) = []"
    by (simp_all add: started_request)
  from cancelRequest_iff_registered[OF r, of "''req-1''"] a t d
  have "fst (cancelRequest ''req-1'' ?s)
      \<and> requestTimeouts (snd (cancelRequest ''req-1'' ?s)) = []
      \<and> pendingTimeouts (snd (cancelRequest ''req-1'' ?s)) 1 = None
      \<and> signals (snd (cancelRequest ''req-1'' ?s)) 0 = Some True"
    by simp
  moreover from cancelRequest_iff_registered[OF r, of "''req-2''"] b
  have "\<not> fst (cancelRequest ''req-2'' ?s)"
    by simp
  ultimately show ?thesis using r a b by simp
qed

theorem one_controller_per_request_witness:
  "rc_reachable (rc_step (CreateCancellableRequest Controller ''req-1''
        \<lparr>timeout = None, onTimeout = Some 7, onCancel = None\<rparr> 0 ''now'') RequestController)
   \<and> map_of (abortControllers (rc_step (CreateCancellableRequest Controller ''req-1''
        \<lparr>timeout = None, onTimeout = Some 7, onCancel = None\<rparr> 0 ''now'') RequestController))
        ''req-1'' = Some 0
   \<and> fst (createAbortController ''req-1'' (rc_step (CreateCancellableRequest Controller ''req-1''
        \<lparr>timeout = None, onTimeout = Some 7, onCancel = None\<rparr> 0 ''now'') RequestController))
       = 1
   \<and> abortControllers (snd (createAbortController ''req-1'' (rc_step (CreateCancellableRequest Controller ''req-1''
        \<lparr>timeout = None, onTimeout = Some 7, onCancel = None\<rparr> 0 ''now'') RequestController)))
       = [(''req-1'', 1)]
   \<and> signals (snd (createAbortController ''req-1'' (rc_step (CreateCancellableRequest Controller ''req-1''
        \<lparr>timeout = None, onTimeout = Some 7, onCancel = None\<rparr> 0 ''now'') RequestController)))
        0 = Some True
   \<and> signals (snd (createAbortController ''req-1'' (rc_step (CreateCancellableRequest Controller ''req-1''
        \<lparr>timeout = None, onTimeout = Some 7, onCancel = None\<rparr> 0 ''now'') RequestController)))
        1 = Some False"
proof -
  let ?s = "rc_step (CreateCancellableRequest Controller ''req-1''
        \<lparr>timeout = None, onTimeout = Some 7, onCancel = None\<rparr> 0 ''now'') RequestController"
  have r: "rc_reachable ?s" by (rule rc_next[OF rc_initial])
  have a: "map_of (abortControllers ?s) ''req-1'' = Some 0"
    by (simp add: started_request)
  have c: "fst (createAbortController ''req-1'' ?s) = 1"
    and l: "abortControllers (snd (createAbortController ''req-1'' ?s)) = [(''req-1'', 1)]"
    by (simp_all add: started_request createAbortController_def cancelRequest_def clearRequestTimeout_def
        clearTimeout_def abort_def Let_def)
  from one_controller_per_request[OF r, of "''req-1''" Cleanup] a c
  have "signals (snd (createAbortController ''req-1'' ?s)) 0 = Some True
      \<and> signals (snd (createAbortController ''req-1'' ?s)) 1 = Some False"
    by simp
  with r a c l show ?thesis by simp
qed

lemma timeoutFires_registered:
  assumes inv: "rc_inv s" and pend: "pendingTimeouts s t = Some e"
    and reg: "map_of (abortControllers s) (for_request e) = Some c"
  shows "signals (timeoutFires t s) c = Some True
     \<and> for_request e \<notin> fst ` set (abortControllers (timeoutFires t s))
     \<and> for_request e \<notin> fst ` set (activeRequests (timeoutFires t s))
     \<and> for_request e \<notin> fst ` set (requestTimeouts (timeoutFires t s))
     \<and> pendingTimeouts (timeoutFires t s) t = None
     \<and> calls (timeoutFires t s) =
          calls s @ Abort c #
            (case map_of (requestTimeouts s) (for_request e) of
               None \<Rightarrow> [] | Some t' \<Rightarrow> [ClearTimeout t'])
            @ (case on_timeout e of None \<Rightarrow> [] | Some cb \<Rightarrow> [OnTimeout cb])"
proof -
  let ?s1 = "s\<lparr>pendingTimeouts := (pendingTimeouts s)(t := None)\<rparr>"
  have inv1: "rc_inv ?s1" using inv by (simp add: rc_inv_pending)
  have reg1: "map_of (abortControllers ?s1) (for_request e) = Some c" using reg by simp
  note f = cancelRequest_registered[OF inv1 reg1]
  show ?thesis
    using pend
    by (simp add: timeoutFires_def Let_def f delete_notin_dom split: option.splits)
qed


text \<open>
  What holds of \<open>createCancellableRequest\<close>. Called on the controller with no \<open>timeout\<close>
  option, it registers a fresh controller and a timeout of 30000 ms for the request id;
  and a pending timeout that fires while a controller is registered under its request id
  aborts that controller, removes the id from the three maps and then calls \<open>onTimeout\<close>
  if one was given (\<open>timeoutFires_registered\<close>).
\<close>

lemma createCancellableRequest_default:
  assumes inv: "rc_inv s" and dflt: "timeout opts = None"
  shows "\<exists>s'. createCancellableRequest Controller r opts now ts s = Inr (nextController s, s')
     \<and> map_of (abortControllers s') r = Some (nextController s)
     \<and> signals s' (nextController s) = Some False
     \<and> map_of (requestTimeouts s') r = Some (nextTimeout s)
     \<and> pendingTimeouts s' (nextTimeout s)
          = Some \<lparr>delay = 30000, for_request = r, on_timeout = onTimeout opts\<rparr>
     \<and> isRequestActive r s'
     \<and> SetTimeout (nextTimeout s) 30000 \<in> set (calls s')"
proof -
  let ?s1 = "snd (createAbortController r s)"
  have inv1: "rc_inv ?s1" using inv by (rule rc_inv_createAbortController)
  note f = createAbortController_fields[OF inv, of r]
  have nt: "nextTimeout ?s1 = nextTimeout s" using f by simp
  note g = setRequestTimeout_fields[OF inv1, of r 30000 "onTimeout opts", unfolded nt]
  show ?thesis
    by (simp add: createCancellableRequest_def Let_def dflt case_prod_unfold g f
        markRequestActive_def isRequestActive_def update_conv')
qed

text \<open>
  Claim C4 says that every request started with \<open>createCancellableRequest\<close> and no
  explicit timeout gets a timeout of 30000 ms, and that the controller cancels the request
  and then calls \<open>onTimeout\<close> if the timeout elapses before the request completes. Two
  calls show that the code does not keep this.

  The first is the call of the function that the module exports under the same name,
  with no receiver: it fails with a \<open>TypeError\<close> before anything is registered.

  The second is a request id used twice, on the controller. Request A starts under the id
  \<open>search\<close>; request B starts under the same id while A is pending, which aborts A's
  controller 0 and clears A's timeout 1, and registers controller 1 and the timeout 2 of
  30000 ms for B. Then the promise of A's call is fulfilled (its API call did not watch
  the signal, or its answer was there already), and the rest of A's
  \<open>createCancellableRequest\<close> runs \<open>markRequestCompleted\<close> with the id: it finds B's
  entries under the id and removes them, and clears B's timeout. B has not completed, its
  controller is not aborted, and no timeout is pending any more: when the 30000 ms are
  over nothing fires, B is not cancelled and its \<open>onTimeout\<close> is never called.
\<close>

theorem createCancellableRequest_loses_timeout:
  "createCancellableRequest Undefined ''search''
       \<lparr>timeout = None, onTimeout = Some 7, onCancel = None\<rparr> 0 ''t0'' RequestController
     = Inl TypeError
   \<and> rc_step (CreateCancellableRequest Undefined ''search''
       \<lparr>timeout = None, onTimeout = Some 7, onCancel = None\<rparr> 0 ''t0'') RequestController
     = RequestController
   \<and> map_of (abortControllers (fold rc_step
        [CreateCancellableRequest Controller ''search''
           \<lparr>timeout = None, onTimeout = Some 7, onCancel = None\<rparr> 0 ''t0'',
         CreateCancellableRequest Controller ''search''
           \<lparr>timeout = None, onTimeout = Some 8, onCancel = None\<rparr> 5 ''t5'']
        RequestController)) ''search'' = Some 1
   \<and> pendingTimeouts (fold rc_step
        [CreateCancellableRequest Controller ''search''
           \<lparr>timeout = None, onTimeout = Some 7, onCancel = None\<rparr> 0 ''t0'',
         CreateCancellableRequest Controller ''search''
           \<lparr>timeout = None, onTimeout = Some 8, onCancel = None\<rparr> 5 ''t5'']
        RequestController) 2
     = Some \<lparr>delay = 30000, for_request = ''search'', on_timeout = Some 8\<rparr>
   \<and> fold rc_step
        [CreateCancellableRequest Controller ''search''
           \<lparr>timeout = None, onTimeout = Some 7, onCancel = None\<rparr> 0 ''t0'',
         CreateCancellableRequest Controller ''search''
           \<lparr>timeout = None, onTimeout = Some 8, onCancel = None\<rparr> 5 ''t5'',
         RequestSettles ''search''
           \<lparr>timeout = None, onTimeout = Some 7, onCancel = None\<rparr> Fulfilled]
        RequestController
     = \<lparr>abortControllers = [], activeRequests = [], requestTimeouts = [],
        signals = [0 \<mapsto> True, 1 \<mapsto> False], nextController = 2,
        pendingTimeouts = Map.empty, nextTimeout = 3,
        calls = [SetTimeout 1 30000, ApiCall 0, Abort 0, ClearTimeout 1,
                 SetTimeout 2 30000, ApiCall 1, ClearTimeout 2]\<rparr>
   \<and> fold rc_step
        [CreateCancellableRequest Controller ''search''
           \<lparr>timeout = None, onTimeout = Some 7, onCancel = None\<rparr> 0 ''t0'',
         CreateCancellableRequest Controller ''search''
           \<lparr>timeout = None, onTimeout = Some 8, onCancel = None\<rparr> 5 ''t5'',
         RequestSettles ''search''
           \<lparr>timeout = None, onTimeout = Some 7, onCancel = None\<rparr> Fulfilled,
         TimeoutFires 2]
        RequestController
     = \<lparr>abortControllers = [], activeRequests = [], requestTimeouts = [],
        signals = [0 \<mapsto> True, 1 \<mapsto> False], nextController = 2,
        pendingTimeouts = Map.empty, nextTimeout = 3,
        calls = [SetTimeout 1 30000, ApiCall 0, Abort 0, ClearTimeout 1,
                 SetTimeout 2 30000, ApiCall 1, ClearTimeout 2]\<rparr>"
  by (simp add: createCancellableRequest_def createAbortController_def cancelRequest_def
      setRequestTimeout_def setTimeout_def clearRequestTimeout_def clearTimeout_def abort_def
      markRequestActive_def markRequestCompleted_def requestSettles_def timeoutFires_def
      RequestController_def Let_def)
section \<open>Properties of the WebSocket manager\<close>

lemma scheduled_append:
  "scheduled (s\<lparr>effects := effects s @ cs\<rparr>) = scheduled s + length (filter is_reconnect_timeout cs)"
  by (simp add: scheduled_def)

lemma scheduled_update [simp]:
  "scheduled (s\<lparr>sockets := a\<rparr>) = scheduled s"
  "scheduled (s\<lparr>reconnectAttempts := b\<rparr>) = scheduled s"
  "scheduled (s\<lparr>timers := c\<rparr>) = scheduled s"
  "scheduled (s\<lparr>taskId := d\<rparr>) = scheduled s"
  "scheduled (s\<lparr>onStatusChange := e\<rparr>) = scheduled s"
  "scheduled (s\<lparr>ws := f\<rparr>) = scheduled s"
  "scheduled (s\<lparr>messageHandlers := g\<rparr>) = scheduled s"
  "scheduled (s\<lparr>connectionStatus := h\<rparr>) = scheduled s"
  "scheduled (s\<lparr>nextSocket := i\<rparr>) = scheduled s"
  by (simp_all add: scheduled_def)

lemma updateStatus_frame:
  "reconnectAttempts (updateStatus st s) = reconnectAttempts s
   \<and> maxReconnectAttempts (updateStatus st s) = maxReconnectAttempts s
   \<and> reconnectDelay (updateStatus st s) = reconnectDelay s
   \<and> timers (updateStatus st s) = timers s
   \<and> scheduled (updateStatus st s) = scheduled s
   \<and> connectionStatus (updateStatus st s) = st
   \<and> onStatusChange (updateStatus st s) = onStatusChange s
   \<and> taskId (updateStatus st s) = taskId s
   \<and> ws (updateStatus st s) = ws s
   \<and> sockets (updateStatus st s) = sockets s
   \<and> nextSocket (updateStatus st s) = nextSocket s
   \<and> messageHandlers (updateStatus st s) = messageHandlers s
   \<and> effects (updateStatus st s) =
        effects s @ (case onStatusChange s of None \<Rightarrow> [] | Some cb \<Rightarrow> [StatusChanged cb st])"
  by (simp add: updateStatus_def Let_def scheduled_def split: option.splits)

lemma connect_frame:
  "reconnectAttempts (connect tid cb created s) = reconnectAttempts s
   \<and> maxReconnectAttempts (connect tid cb created s) = maxReconnectAttempts s
   \<and> reconnectDelay (connect tid cb created s) = reconnectDelay s
   \<and> timers (connect tid cb created s) = timers s
   \<and> scheduled (connect tid cb created s) = scheduled s"
  by (simp add: connect_def Let_def updateStatus_def scheduled_def split: option.splits)

lemma send_frame:
  "reconnectAttempts (send d s) = reconnectAttempts s
   \<and> maxReconnectAttempts (send d s) = maxReconnectAttempts s
   \<and> reconnectDelay (send d s) = reconnectDelay s
   \<and> timers (send d s) = timers s
   \<and> scheduled (send d s) = scheduled s"
  by (simp add: send_def scheduled_append split: option.splits)

lemma scheduleReconnect_frame:
  "reconnectAttempts (scheduleReconnect s) = reconnectAttempts s + 1
   \<and> maxReconnectAttempts (scheduleReconnect s) = maxReconnectAttempts s
   \<and> reconnectDelay (scheduleReconnect s) = reconnectDelay s
   \<and> timers (scheduleReconnect s) = timers s @ [reconnectDelay s * 2 ^ reconnectAttempts s]
   \<and> effects (scheduleReconnect s) =
        effects s @ [SetReconnectTimeout (reconnectDelay s * 2 ^ reconnectAttempts s)]
   \<and> scheduled (scheduleReconnect s) = scheduled s + 1"
  by (simp add: scheduleReconnect_def Let_def scheduled_def)

lemma onopen_frame:
  "reconnectAttempts (onopen k s) = 0
   \<and> maxReconnectAttempts (onopen k s) = maxReconnectAttempts s
   \<and> reconnectDelay (onopen k s) = reconnectDelay s
   \<and> timers (onopen k s) = timers s
   \<and> scheduled (onopen k s) = scheduled s"
  by (simp add: onopen_def Let_def updateStatus_frame send_frame split: option.splits)

lemma onclose_frame:
  "maxReconnectAttempts (onclose k code s) = maxReconnectAttempts s
   \<and> reconnectDelay (onclose k code s) = reconnectDelay s
   \<and> (if code \<noteq> 1000 \<and> reconnectAttempts s < maxReconnectAttempts s
       then reconnectAttempts (onclose k code s) = reconnectAttempts s + 1
            \<and> timers (onclose k code s) = timers s @ [reconnectDelay s * 2 ^ reconnectAttempts s]
            \<and> scheduled (onclose k code s) = scheduled s + 1
       else reconnectAttempts (onclose k code s) = reconnectAttempts s
            \<and> timers (onclose k code s) = timers s
            \<and> scheduled (onclose k code s) = scheduled s)"
  by (simp add: onclose_def Let_def updateStatus_frame scheduleReconnect_frame)

lemma onerror_frame:
  "reconnectAttempts (onerror k s) = reconnectAttempts s
   \<and> maxReconnectAttempts (onerror k s) = maxReconnectAttempts s
   \<and> reconnectDelay (onerror k s) = reconnectDelay s
   \<and> timers (onerror k s) = timers s
   \<and> scheduled (onerror k s) = scheduled s"
  by (simp add: onerror_def updateStatus_frame)

lemma update_no_timeout:
  "handleProgressUpdate p = Inr cs \<Longrightarrow> filter is_reconnect_timeout cs = []"
  "handleStatusUpdate p = Inr cs \<Longrightarrow> filter is_reconnect_timeout cs = []"
  "handleResultUpdate p = Inr cs \<Longrightarrow> filter is_reconnect_timeout cs = []"
  "handleErrorUpdate p = Inr cs \<Longrightarrow> filter is_reconnect_timeout cs = []"
  "handleCompleteUpdate p = Inr cs \<Longrightarrow> filter is_reconnect_timeout cs = []"
  by (auto simp: handleProgressUpdate_def handleStatusUpdate_def handleResultUpdate_def
      handleErrorUpdate_def handleCompleteUpdate_def emit_def split: sum.splits)

lemma default_no_timeout:
  "handleDefaultMessage d = Inr cs \<Longrightarrow> filter is_reconnect_timeout cs = []"
  unfolding handleDefaultMessage_def Let_def
  by (cases "destructure d [''type'', ''payload'', ''progress'', ''status'', ''message'']")
     (auto dest: update_no_timeout split: if_splits)

lemma handleMessage_no_timeout:
  "handleMessage s d = Inr cs \<Longrightarrow> filter is_reconnect_timeout cs = []"
  unfolding handleMessage_def Let_def
  by (cases "destructure d [''type'', ''task_id'', ''payload'', ''progress'', ''status'', ''message'']")
     (auto dest: default_no_timeout split: if_splits option.splits)

lemma onmessage_frame:
  "reconnectAttempts (onmessage k p s) = reconnectAttempts s
   \<and> maxReconnectAttempts (onmessage k p s) = maxReconnectAttempts s
   \<and> reconnectDelay (onmessage k p s) = reconnectDelay s
   \<and> timers (onmessage k p s) = timers s
   \<and> scheduled (onmessage k p s) = scheduled s"
  by (auto simp: onmessage_def scheduled_append handleMessage_no_timeout
      split: option.splits sum.splits)

lemma disconnect_frame:
  "reconnectAttempts (disconnect s) = reconnectAttempts s
   \<and> maxReconnectAttempts (disconnect s) = maxReconnectAttempts s
   \<and> reconnectDelay (disconnect s) = reconnectDelay s
   \<and> timers (disconnect s) = timers s
   \<and> scheduled (disconnect s) = scheduled s
   \<and> ws (disconnect s) = None
   \<and> connectionStatus (disconnect s) = ''disconnected''
   \<and> effects (disconnect s) =
        effects s
        @ (case ws s of None \<Rightarrow> [] | Some j \<Rightarrow> [WsClose j 1000 ''Manual disconnect''])
        @ (case onStatusChange s of
             None \<Rightarrow> [] | Some cb \<Rightarrow> [StatusChanged cb ''disconnected''])"
  by (simp add: disconnect_def Let_def updateStatus_frame scheduled_append
      split: option.splits)

lemma on_off_frame:
  "reconnectAttempts (on ty h s) = reconnectAttempts s
   \<and> maxReconnectAttempts (on ty h s) = maxReconnectAttempts s
   \<and> reconnectDelay (on ty h s) = reconnectDelay s
   \<and> timers (on ty h s) = timers s
   \<and> scheduled (on ty h s) = scheduled s
   \<and> reconnectAttempts (off ty s) = reconnectAttempts s
   \<and> maxReconnectAttempts (off ty s) = maxReconnectAttempts s
   \<and> reconnectDelay (off ty s) = reconnectDelay s
   \<and> timers (off ty s) = timers s
   \<and> scheduled (off ty s) = scheduled s"
  by (simp add: on_def off_def scheduled_def)

lemma timer_frame:
  "reconnectAttempts (ws_step (ReconnectTimerFires i created) s) = reconnectAttempts s
   \<and> maxReconnectAttempts (ws_step (ReconnectTimerFires i created) s) = maxReconnectAttempts s
   \<and> reconnectDelay (ws_step (ReconnectTimerFires i created) s) = reconnectDelay s
   \<and> scheduled (ws_step (ReconnectTimerFires i created) s) = scheduled s"
  by (simp add: reconnectCallback_def connect_frame)

lemma ws_step_counts:
  "maxReconnectAttempts (ws_step ev s) = maxReconnectAttempts s
   \<and> reconnectDelay (ws_step ev s) = reconnectDelay s
   \<and> (is_open_event ev \<longrightarrow>
        reconnectAttempts (ws_step ev s) = 0 \<and> scheduled (ws_step ev s) = scheduled s)
   \<and> (\<not> is_open_event ev \<longrightarrow>
        scheduled (ws_step ev s) + reconnectAttempts s
          = scheduled s + reconnectAttempts (ws_step ev s))
   \<and> (scheduled (ws_step ev s) \<noteq> scheduled s \<longrightarrow>
        reconnectAttempts s < maxReconnectAttempts s
        \<and> reconnectAttempts (ws_step ev s) = reconnectAttempts s + 1
        \<and> scheduled (ws_step ev s) = scheduled s + 1)"
proof (cases ev)
  case (SocketCloses k code)
  then show ?thesis using onclose_frame[of k code s] by (auto split: if_splits)
next
  case (ReconnectTimerFires i created)
  then show ?thesis using timer_frame[of i created s] by simp
qed (simp_all add: connect_frame disconnect_frame send_frame on_off_frame onopen_frame
    onmessage_frame onerror_frame)

lemma ws_inv_step:
  assumes inv: "ws_inv s"
  shows "ws_inv (ws_step ev s)"
proof -
  note c = ws_step_counts[of ev s]
  from inv have m: "maxReconnectAttempts s = 5" and d: "reconnectDelay s = 1000"
    and a: "reconnectAttempts s \<le> 5" by (simp_all add: ws_inv_def)
  have "reconnectAttempts (ws_step ev s) \<le> 5"
  proof (cases "is_open_event ev")
    case True
    with c show ?thesis by simp
  next
    case False
    with c have e: "scheduled (ws_step ev s) + reconnectAttempts s
          = scheduled s + reconnectAttempts (ws_step ev s)" by simp
    show ?thesis
    proof (cases "scheduled (ws_step ev s) = scheduled s")
      case True
      with e a show ?thesis by linarith
    next
      case False
      with c have "reconnectAttempts s < maxReconnectAttempts s"
        and "reconnectAttempts (ws_step ev s) = reconnectAttempts s + 1" by simp_all
      with m show ?thesis by linarith
    qed
  qed
  with c m d show ?thesis by (simp add: ws_inv_def)
qed

lemma ws_inv_initial: "ws_inv WebSocketManager"
  by (simp add: ws_inv_def WebSocketManager_def)

lemma ws_reachable_inv: "ws_reachable s \<Longrightarrow> ws_inv s"
  by (induction rule: ws_reachable.induct) (simp_all add: ws_inv_step ws_inv_initial)

lemma ws_run_reachable: "ws_reachable s \<Longrightarrow> ws_reachable (ws_run evs s)"
  unfolding ws_run_def
  by (induction evs arbitrary: s) (simp_all add: ws_next)

lemma closes_timers:
  "n + reconnectAttempts s \<le> maxReconnectAttempts s \<Longrightarrow> code \<noteq> 1000 \<Longrightarrow>
     timers (ws_run (replicate n (SocketCloses k code)) s)
       = timers s @ map (\<lambda>i. reconnectDelay s * 2 ^ (reconnectAttempts s + i)) [0..<n]
     \<and> reconnectAttempts (ws_run (replicate n (SocketCloses k code)) s) = reconnectAttempts s + n
     \<and> maxReconnectAttempts (ws_run (replicate n (SocketCloses k code)) s) = maxReconnectAttempts s
     \<and> reconnectDelay (ws_run (replicate n (SocketCloses k code)) s) = reconnectDelay s"
proof (induction n)
  case 0
  then show ?case by (simp add: ws_run_def)
next
  case (Suc n)
  let ?sn = "ws_run (replicate n (SocketCloses k code)) s"
  from Suc have ih: "timers ?sn
       = timers s @ map (\<lambda>i. reconnectDelay s * 2 ^ (reconnectAttempts s + i)) [0..<n]"
    "reconnectAttempts ?sn = reconnectAttempts s + n"
    "maxReconnectAttempts ?sn = maxReconnectAttempts s"
    "reconnectDelay ?sn = reconnectDelay s"
    by simp_all
  have rep: "replicate (Suc n) (SocketCloses k code) = replicate n (SocketCloses k code) @ [SocketCloses k code]"
    by (simp add: replicate_append_same)
  have r: "ws_run (replicate (Suc n) (SocketCloses k code)) s = onclose k code ?sn"
    unfolding rep by (simp add: ws_run_def)
  from Suc.prems ih have g: "code \<noteq> 1000 \<and> reconnectAttempts ?sn < maxReconnectAttempts ?sn"
    by simp
  from onclose_frame[of k code ?sn] g
  have f: "maxReconnectAttempts (onclose k code ?sn) = maxReconnectAttempts ?sn"
    "reconnectDelay (onclose k code ?sn) = reconnectDelay ?sn"
    "reconnectAttempts (onclose k code ?sn) = reconnectAttempts ?sn + 1"
    "timers (onclose k code ?sn) = timers ?sn @ [reconnectDelay ?sn * 2 ^ reconnectAttempts ?sn]"
    by simp_all
  show ?case
    unfolding r f ih by simp
qed

text \<open>
  Claim C1. For every reconnection attempt \<open>n \<ge> 1\<close> that \<open>scheduleReconnect\<close> schedules,
  the delay before the attempt is \<open>reconnectDelay * 2^(n-1)\<close> milliseconds, with
  \<open>reconnectDelay = 1000\<close>: the delays of attempts 1 to 5 are 1000, 2000, 4000, 8000 and
  16000 ms.
\<close>

theorem reconnect_delay_doubles:
  assumes "ws_reachable s"
  shows "reconnectDelay s = 1000
     \<and> reconnectAttempts (scheduleReconnect s) = reconnectAttempts s + 1
     \<and> timers (scheduleReconnect s)
         = timers s @ [1000 * 2 ^ (reconnectAttempts (scheduleReconnect s) - 1)]
     \<and> effects (scheduleReconnect s)
         = effects s @ [SetReconnectTimeout
                          (1000 * 2 ^ (reconnectAttempts (scheduleReconnect s) - 1))]
     \<and> (\<forall>n\<le>5. code \<noteq> 1000 \<longrightarrow>
           timers (ws_run (replicate n (SocketCloses k code)) WebSocketManager)
             = map (\<lambda>a. 1000 * 2 ^ (a - 1)) [1..<Suc n])
     \<and> timers (ws_run (replicate 5 (SocketCloses k 1006)) WebSocketManager)
         = [1000, 2000, 4000, 8000, 16000]"
proof -
  from assms have "ws_inv s" by (rule ws_reachable_inv)
  then have d: "reconnectDelay s = 1000" by (simp add: ws_inv_def)
  note f = scheduleReconnect_frame[of s]
  have gen: "timers (ws_run (replicate n (SocketCloses k c)) WebSocketManager)
             = map (\<lambda>a. 1000 * 2 ^ (a - 1)) [1..<Suc n]" if "n \<le> 5" "c \<noteq> 1000" for n c
  proof -
    have i: "reconnectAttempts WebSocketManager = 0" "maxReconnectAttempts WebSocketManager = 5"
      "reconnectDelay WebSocketManager = 1000" "timers WebSocketManager = []"
      by (simp_all add: WebSocketManager_def)
    have "[1..<Suc n] = map Suc [0..<n]" by (simp add: map_Suc_upt del: upt_Suc)
    then show ?thesis
      using closes_timers[of n WebSocketManager c k] that by (simp add: i o_def)
  qed
  have five: "timers (ws_run (replicate 5 (SocketCloses k 1006)) WebSocketManager)
         = [1000, 2000, 4000, 8000, 16000]"
  proof -
    have "[1..<Suc 5] = [1, 2, 3, 4, 5]" by code_simp
    with gen[of 5 1006] show ?thesis by simp
  qed
  from d f gen five show ?thesis by simp
qed

theorem reconnect_delay_doubles_witness:
  "ws_reachable (onclose 0 1006 (connect (Some ''task-1'') None True WebSocketManager))
   \<and> reconnectAttempts (onclose 0 1006 (connect (Some ''task-1'') None True WebSocketManager)) = 1
   \<and> timers (scheduleReconnect (onclose 0 1006 (connect (Some ''task-1'') None True WebSocketManager)))
       = [1000, 2000]
   \<and> timers (ws_run (replicate 3 (SocketCloses 0 1006)) WebSocketManager) = [1000, 2000, 4000]"
proof -
  let ?s = "onclose 0 1006 (connect (Some ''task-1'') None True WebSocketManager)"
  have "ws_reachable (ws_step (SocketCloses 0 1006)
          (ws_step (Connect (Some ''task-1'') None True) WebSocketManager))"
    by (intro ws_next ws_initial)
  then have r: "ws_reachable ?s" by simp
  have a: "reconnectAttempts ?s = 1" and t: "timers ?s = [1000]"
    by (simp_all add: onclose_def connect_def updateStatus_def scheduleReconnect_def
        WebSocketManager_def Let_def)
  have u: "[1..<Suc 3] = [1, 2, 3]" by code_simp
  note th = reconnect_delay_doubles[OF r, of 1006 0]
  from th a t have x: "timers (scheduleReconnect ?s) = [1000, 2000]"
    by simp
  from th have "\<forall>n\<le>5. (1006::nat) \<noteq> 1000 \<longrightarrow>
           timers (ws_run (replicate n (SocketCloses 0 1006)) WebSocketManager)
             = map (\<lambda>a. 1000 * 2 ^ (a - 1)) [1..<Suc n]"
    by (elim conjE)
  from this[rule_format, of 3]
  have "timers (ws_run (replicate 3 (SocketCloses 0 1006)) WebSocketManager)
          = map (\<lambda>a. 1000 * 2 ^ (a - 1)) [1..<Suc 3]"
    by (simp del: upt_Suc)
  then have y: "timers (ws_run (replicate 3 (SocketCloses 0 1006)) WebSocketManager)
          = [1000, 2000, 4000]"
    unfolding u by simp
  from x y have "timers (scheduleReconnect ?s) = [1000, 2000]
      \<and> timers (ws_run (replicate 3 (SocketCloses 0 1006)) WebSocketManager) = [1000, 2000, 4000]"
    by simp
  with r a show ?thesis by simp
qed







text \<open>A timer that is pending when \<open>disconnect()\<close> is called is not cancelled either: it
  fires, finds the status \<open>disconnected\<close>, and opens a new socket.\<close>

lemma pending_timer_survives_disconnect:
  "effects (ws_run [Connect (Some ''task-1'') None True, SocketCloses 0 1006, Disconnect,
                    ReconnectTimerFires 0 True] WebSocketManager)
     = [NewWebSocket (Some 0), SetReconnectTimeout 1000,
        WsClose 0 1000 ''Manual disconnect'', NewWebSocket (Some 1)]"
  by (simp add: ws_run_def connect_def disconnect_def onclose_def scheduleReconnect_def
      reconnectCallback_def updateStatus_def WebSocketManager_def Let_def)



lemma run_counts:
  "\<forall>ev\<in>set evs. \<not> is_open_event ev \<Longrightarrow>
     scheduled (ws_run evs s) + reconnectAttempts s = scheduled s + reconnectAttempts (ws_run evs s)"
proof (induction evs arbitrary: s)
  case Nil
  then show ?case by (simp add: ws_run_def)
next
  case (Cons ev evs)
  from Cons.prems have n: "\<not> is_open_event ev" and r: "\<forall>e\<in>set evs. \<not> is_open_event e"
    by simp_all
  from ws_step_counts[of ev s] n
  have a: "scheduled (ws_step ev s) + reconnectAttempts s
          = scheduled s + reconnectAttempts (ws_step ev s)" by simp
  from Cons.IH[OF r, of "ws_step ev s"]
  have b: "scheduled (ws_run evs (ws_step ev s)) + reconnectAttempts (ws_step ev s)
      = scheduled (ws_step ev s) + reconnectAttempts (ws_run evs (ws_step ev s))" .
  have c: "ws_run (ev # evs) s = ws_run evs (ws_step ev s)" by (simp add: ws_run_def)
  from a b show ?case unfolding c by linarith
qed

text \<open>
  Claim C9. In every reachable state of the manager \<open>reconnectAttempts \<le>
  maxReconnectAttempts = 5\<close>: \<open>scheduleReconnect\<close> only runs when \<open>reconnectAttempts <
  maxReconnectAttempts\<close> and adds one to it, so at most 5 reconnection attempts are
  scheduled in a row without a socket opening in between, and every socket that opens
  sets \<open>reconnectAttempts\<close> back to 0.
\<close>

theorem reconnect_attempts_bounded:
  assumes "ws_reachable s"
  shows "reconnectAttempts s \<le> maxReconnectAttempts s
     \<and> maxReconnectAttempts s = 5
     \<and> reconnectAttempts (ws_step (SocketOpens k) s) = 0
     \<and> (scheduled (ws_step ev s) \<noteq> scheduled s \<longrightarrow>
          reconnectAttempts s < maxReconnectAttempts s
          \<and> reconnectAttempts (ws_step ev s) = reconnectAttempts s + 1
          \<and> scheduled (ws_step ev s) = scheduled s + 1)
     \<and> ((\<forall>e\<in>set evs. \<not> is_open_event e) \<longrightarrow>
          scheduled (ws_run evs s) + reconnectAttempts s
            = scheduled s + reconnectAttempts (ws_run evs s)
          \<and> scheduled (ws_run evs s) \<le> scheduled s + 5)"
proof -
  from assms have inv: "ws_inv s" by (rule ws_reachable_inv)
  from assms have "ws_reachable (ws_run evs s)" by (rule ws_run_reachable)
  then have inv': "ws_inv (ws_run evs s)" by (rule ws_reachable_inv)
  have run: "(\<forall>e\<in>set evs. \<not> is_open_event e) \<longrightarrow>
          scheduled (ws_run evs s) + reconnectAttempts s
            = scheduled s + reconnectAttempts (ws_run evs s)
          \<and> scheduled (ws_run evs s) \<le> scheduled s + 5"
  proof
    assume "\<forall>e\<in>set evs. \<not> is_open_event e"
    then have e: "scheduled (ws_run evs s) + reconnectAttempts s
            = scheduled s + reconnectAttempts (ws_run evs s)" by (rule run_counts)
    from inv' have "reconnectAttempts (ws_run evs s) \<le> 5" by (simp add: ws_inv_def)
    with e show "scheduled (ws_run evs s) + reconnectAttempts s
            = scheduled s + reconnectAttempts (ws_run evs s)
          \<and> scheduled (ws_run evs s) \<le> scheduled s + 5" by linarith
  qed
  from inv have a: "reconnectAttempts s \<le> maxReconnectAttempts s" "maxReconnectAttempts s = 5"
    by (simp_all add: ws_inv_def)
  have o: "reconnectAttempts (ws_step (SocketOpens k) s) = 0" by (simp add: onopen_frame)
  from ws_step_counts[of ev s]
  have st: "scheduled (ws_step ev s) \<noteq> scheduled s \<longrightarrow>
          reconnectAttempts s < maxReconnectAttempts s
          \<and> reconnectAttempts (ws_step ev s) = reconnectAttempts s + 1
          \<and> scheduled (ws_step ev s) = scheduled s + 1" by (elim conjE)
  from a o st run show ?thesis by (intro conjI)
qed

theorem reconnect_attempts_bounded_witness:
  "ws_reachable WebSocketManager
   \<and> reconnectAttempts WebSocketManager = 0
   \<and> reconnectAttempts (ws_run (replicate 5 (SocketCloses 0 1006)) WebSocketManager) = 5
   \<and> scheduled (ws_run (replicate 5 (SocketCloses 0 1006) @ [SocketCloses 0 1006])
                 WebSocketManager) = 5
   \<and> reconnectAttempts (ws_step (SocketOpens 0) WebSocketManager) = 0"
proof -
  let ?c = "SocketCloses 0 1006"
  let ?s5 = "ws_run (replicate 5 ?c) WebSocketManager"
  have i: "reconnectAttempts WebSocketManager = 0" "maxReconnectAttempts WebSocketManager = 5"
    "scheduled WebSocketManager = 0"
    by (simp_all add: WebSocketManager_def scheduled_def)
  from closes_timers[of 5 WebSocketManager 1006 0]
  have a5: "reconnectAttempts ?s5 = 5" and m5: "maxReconnectAttempts ?s5 = 5"
    by (simp_all add: i)
  have r: "ws_run (replicate 5 ?c @ [?c]) WebSocketManager = onclose 0 1006 ?s5"
    by (simp add: ws_run_def)
  from onclose_frame[of 0 1006 ?s5] a5 m5
  have a6: "reconnectAttempts (ws_run (replicate 5 ?c @ [?c]) WebSocketManager) = 5"
    unfolding r by simp
  have n: "\<forall>e\<in>set (replicate 5 ?c @ [?c]). \<not> is_open_event e"
    by simp
  from reconnect_attempts_bounded[OF ws_initial, of 0 ?c "replicate 5 ?c @ [?c]"] n a6
  have "scheduled (ws_run (replicate 5 ?c @ [?c]) WebSocketManager) = 5
     \<and> reconnectAttempts (ws_step (SocketOpens 0) WebSocketManager) = 0"
    by (simp add: i)
  with ws_initial i a5 show ?thesis by simp
qed

lemma destructure_ok:
  "v \<noteq> JUndefined \<Longrightarrow> v \<noteq> JNull \<Longrightarrow>
     destructure v names = Inr (map (\<lambda>name. (name, get_prop v name)) names)"
  by (simp add: destructure_def)

lemma destructure_nullish:
  "destructure JUndefined names = Inl TypeError" "destructure JNull names = Inl TypeError"
  by (simp_all add: destructure_def)

lemma update_dispatches:
  assumes "payload \<noteq> JUndefined" "payload \<noteq> JNull"
  shows "handleProgressUpdate payload =
           Inr [EventDispatched ''websocket:progress''
                  (detail_of payload [''current'', ''total'', ''percentage'', ''operation'', ''session''])]"
    and "handleStatusUpdate payload =
           Inr [EventDispatched ''websocket:status''
                  (detail_of payload [''status'', ''message'', ''session'', ''details''])]"
    and "handleResultUpdate payload =
           Inr [EventDispatched ''websocket:result''
                  (detail_of payload [''session'', ''result'', ''success'', ''message''])]"
    and "handleErrorUpdate payload =
           Inr [EventDispatched ''websocket:error''
                  (detail_of payload [''session'', ''error'', ''errorType'', ''details''])]"
    and "handleCompleteUpdate payload =
           Inr [EventDispatched ''websocket:complete''
                  (detail_of payload [''summary'', ''totalProcessed'', ''totalSuccess'', ''totalErrors''])]"
  using assms
  by (simp_all add: handleProgressUpdate_def handleStatusUpdate_def handleResultUpdate_def
      handleErrorUpdate_def handleCompleteUpdate_def destructure_def emit_def detail_of_def)

text \<open>
  Claim C5, as the code has it. For every parsed JSON message other than \<open>null\<close>: if its
  type is truthy and a handler was registered for it with \<open>on(type, handler)\<close>,
  \<open>handleMessage\<close> calls exactly that handler with the message and dispatches nothing;
  otherwise, for each of the types \<open>progress\<close>, \<open>status\<close>, \<open>result\<close>, \<open>error\<close> and
  \<open>complete\<close> and a payload that is neither \<open>null\<close> nor missing, it dispatches exactly one
  \<open>CustomEvent\<close> named \<open>websocket:<type>\<close> whose detail holds the corresponding fields of
  the payload; and for any other type it dispatches no event and calls no handler.
\<close>

theorem handleMessage_routes:
  assumes "data \<noteq> JNull" and "data \<noteq> JUndefined"
  shows "(truthy (get_prop data ''type'')
          \<and> handler_for (messageHandlers s) (get_prop data ''type'') = Some h \<longrightarrow>
            handleMessage s data = Inr [HandlerCalled h data])
     \<and> (\<not> (truthy (get_prop data ''type'')
             \<and> handler_for (messageHandlers s) (get_prop data ''type'') \<noteq> None) \<longrightarrow>
          (get_prop data ''payload'' \<noteq> JNull \<and> get_prop data ''payload'' \<noteq> JUndefined \<longrightarrow>
             (get_prop data ''type'' = JStr ''progress'' \<longrightarrow>
                handleMessage s data =
                  Inr [EventDispatched ''websocket:progress''
                        (detail_of (get_prop data ''payload'')
                           [''current'', ''total'', ''percentage'', ''operation'', ''session''])])
           \<and> (get_prop data ''type'' = JStr ''status'' \<longrightarrow>
                handleMessage s data =
                  Inr [EventDispatched ''websocket:status''
                        (detail_of (get_prop data ''payload'')
                           [''status'', ''message'', ''session'', ''details''])])
           \<and> (get_prop data ''type'' = JStr ''result'' \<longrightarrow>
                handleMessage s data =
                  Inr [EventDispatched ''websocket:result''
                        (detail_of (get_prop data ''payload'')
                           [''session'', ''result'', ''success'', ''message''])])
           \<and> (get_prop data ''type'' = JStr ''error'' \<longrightarrow>
                handleMessage s data =
                  Inr [EventDispatched ''websocket:error''
                        (detail_of (get_prop data ''payload'')
                           [''session'', ''error'', ''errorType'', ''details''])])
           \<and> (get_prop data ''type'' = JStr ''complete'' \<longrightarrow>
                handleMessage s data =
                  Inr [EventDispatched ''websocket:complete''
                        (detail_of (get_prop data ''payload'')
                           [''summary'', ''totalProcessed'', ''totalSuccess'', ''totalErrors''])]))
        \<and> (get_prop data ''type'' \<notin> {JStr ''progress'', JStr ''status'', JStr ''result'',
                                       JStr ''error'', JStr ''complete''} \<longrightarrow>
             handleMessage s data = Inr []))"
proof -
  note d = destructure_ok[OF assms(2) assms(1)]
  have routed: "truthy (get_prop data ''type'')
          \<and> handler_for (messageHandlers s) (get_prop data ''type'') = Some h \<longrightarrow>
            handleMessage s data = Inr [HandlerCalled h data]"
    by (simp add: handleMessage_def d Let_def)
  have dflt: "\<not> (truthy (get_prop data ''type'')
             \<and> handler_for (messageHandlers s) (get_prop data ''type'') \<noteq> None) \<Longrightarrow>
          handleMessage s data = handleDefaultMessage data"
    by (auto simp: handleMessage_def d Let_def)
  have sw: "handleDefaultMessage data =
        (let ty = get_prop data ''type''; payload = get_prop data ''payload'' in
           if ty = JStr ''progress'' then handleProgressUpdate payload
           else if ty = JStr ''status'' then handleStatusUpdate payload
           else if ty = JStr ''result'' then handleResultUpdate payload
           else if ty = JStr ''error'' then handleErrorUpdate payload
           else if ty = JStr ''complete'' then handleCompleteUpdate payload
           else Inr [])"
    by (simp add: handleDefaultMessage_def d)
  show ?thesis
    apply (intro conjI impI)
          apply (simp add: routed)
         apply (simp_all add: dflt sw update_dispatches Let_def)
    done
qed

theorem handleMessage_routes_witness:
  "JObj [(''type'', JStr ''status''), (''payload'', JObj [])] \<noteq> JNull
   \<and> truthy (get_prop (JObj [(''type'', JStr ''status''), (''payload'', JObj [])]) ''type'')
   \<and> handleMessage (on (JStr ''status'') 4 WebSocketManager)
        (JObj [(''type'', JStr ''status''), (''payload'', JObj [])])
       = Inr [HandlerCalled 4 (JObj [(''type'', JStr ''status''), (''payload'', JObj [])])]
   \<and> handleMessage (on (JStr ''status'') 4 WebSocketManager)
        (JObj [(''type'', JStr ''progress''),
               (''payload'', JObj [(''current'', JNum 3), (''total'', JNum 10)])])
       = Inr [EventDispatched ''websocket:progress''
                (JObj [(''current'', JNum 3), (''total'', JNum 10), (''percentage'', JUndefined),
                       (''operation'', JUndefined), (''session'', JUndefined)])]
   \<and> handleMessage (on (JStr ''status'') 4 WebSocketManager) (JObj [(''type'', JStr ''ping'')])
       = Inr []"
proof -
  let ?s = "on (JStr ''status'') 4 WebSocketManager"
  let ?a = "JObj [(''type'', JStr ''status''), (''payload'', JObj [])]"
  let ?b = "JObj [(''type'', JStr ''progress''),
               (''payload'', JObj [(''current'', JNum 3), (''total'', JNum 10)])]"
  let ?c = "JObj [(''type'', JStr ''ping'')]"
  have h: "messageHandlers ?s = [(JStr ''status'', 4)]"
    by (simp add: on_def WebSocketManager_def)
  have "handleMessage ?s ?a = Inr [HandlerCalled 4 ?a]"
    using handleMessage_routes[of ?a ?s 4] by (simp add: h handler_for_def)
  moreover have "handleMessage ?s ?b
       = Inr [EventDispatched ''websocket:progress''
                (JObj [(''current'', JNum 3), (''total'', JNum 10), (''percentage'', JUndefined),
                       (''operation'', JUndefined), (''session'', JUndefined)])]"
    using handleMessage_routes[of ?b ?s 4] by (simp add: h handler_for_def detail_of_def)
  moreover have "handleMessage ?s ?c = Inr []"
    using handleMessage_routes[of ?c ?s 4] by (simp add: h handler_for_def)
  ultimately show ?thesis by simp
qed

theorem handleMessage_counterexample:
  "handler_for (messageHandlers (on (JStr '''') 7 WebSocketManager))
      (get_prop (JObj [(''type'', JStr '''')]) ''type'') = Some 7
   \<and> handleMessage (on (JStr '''') 7 WebSocketManager) (JObj [(''type'', JStr '''')]) = Inr []
   \<and> handleMessage WebSocketManager (JObj [(''type'', JStr ''progress'')]) = Inl TypeError"
  by (simp add: handleMessage_def handleDefaultMessage_def handleProgressUpdate_def
      destructure_def handler_for_def on_def WebSocketManager_def Let_def)

end
